theory Spec2Isabelle
  imports
    Main
    "HOL-Library.Char_ord"
    "HOL-Library.List_Lexorder"
    "HOL-Library.Sublist"
begin

section \<open>Go strings and the library functions the program calls\<close>

text \<open>
  A Go \<^verbatim>\<open>string\<close> is a sequence of bytes and \<^verbatim>\<open>len\<close> counts bytes, so a Go string is a
  \<^typ>\<open>string\<close> (a list of 8-bit \<^typ>\<open>char\<close>s) and \<^verbatim>\<open>len(s)\<close> is \<^term>\<open>length s\<close>.
  A Go \<^verbatim>\<open>int\<close> is kept as an \<^typ>\<open>int\<close>; the one place where the width matters, the
  conversion \<^verbatim>\<open>rune(n)\<close> to a 32-bit value, is written out.
\<close>

text \<open>\<^verbatim>\<open>strings.Split(s, "\n")\<close>: the pieces between the newlines, one more than there are newlines.\<close>

fun Split_nl :: "string \<Rightarrow> string list" where
  "Split_nl [] = [[]]"
| "Split_nl (c # cs) =
     (if c = CHR ''\<newline>'' then [] # Split_nl cs
      else (case Split_nl cs of [] \<Rightarrow> [[c]] | l # ls \<Rightarrow> (c # l) # ls))"

text \<open>\<^verbatim>\<open>strings.Join(elems, "\n")\<close>.\<close>

fun Join_nl :: "string list \<Rightarrow> string" where
  "Join_nl [] = []"
| "Join_nl [l] = l"
| "Join_nl (l # ls) = l @ ''\<newline>'' @ Join_nl ls"

text \<open>\<^verbatim>\<open>strings.Join(elems, sep)\<close> for any separator.\<close>

fun Join :: "string list \<Rightarrow> string \<Rightarrow> string" where
  "Join [] sep = []"
| "Join [l] sep = l"
| "Join (l # ls) sep = l @ sep @ Join ls sep"

text \<open>
  \<^verbatim>\<open>strings.TrimSpace\<close> removes the leading and the trailing white space, as Unicode defines
  it. On bytes: the six ASCII white-space characters, and the UTF-8 encodings of U+0085, U+00A0,
  U+1680, U+2000 to U+200A, U+2028, U+2029, U+202F, U+205F and U+3000. A byte sequence that is
  not valid UTF-8 decodes to U+FFFD, which is not white space, and stops the trimming.
\<close>

definition asciiSpace :: "char \<Rightarrow> bool" where
  "asciiSpace c =
     (c = CHR 0x09 \<or> c = CHR 0x0A \<or> c = CHR 0x0B \<or> c = CHR 0x0C \<or> c = CHR 0x0D \<or> c = CHR 0x20)"

definition unicodeSpaces :: "string list" where
  "unicodeSpaces =
     [[CHR 0xC2, CHR 0x85], [CHR 0xC2, CHR 0xA0], [CHR 0xE1, CHR 0x9A, CHR 0x80],
      [CHR 0xE2, CHR 0x80, CHR 0x80], [CHR 0xE2, CHR 0x80, CHR 0x81],
      [CHR 0xE2, CHR 0x80, CHR 0x82], [CHR 0xE2, CHR 0x80, CHR 0x83],
      [CHR 0xE2, CHR 0x80, CHR 0x84], [CHR 0xE2, CHR 0x80, CHR 0x85],
      [CHR 0xE2, CHR 0x80, CHR 0x86], [CHR 0xE2, CHR 0x80, CHR 0x87],
      [CHR 0xE2, CHR 0x80, CHR 0x88], [CHR 0xE2, CHR 0x80, CHR 0x89],
      [CHR 0xE2, CHR 0x80, CHR 0x8A], [CHR 0xE2, CHR 0x80, CHR 0xA8],
      [CHR 0xE2, CHR 0x80, CHR 0xA9], [CHR 0xE2, CHR 0x80, CHR 0xAF],
      [CHR 0xE2, CHR 0x81, CHR 0x9F], [CHR 0xE3, CHR 0x80, CHR 0x80]]"

text \<open>The number of bytes of the white-space character a string begins with; 0 when it begins with none.\<close>

definition spacePrefixLen :: "string \<Rightarrow> nat" where
  "spacePrefixLen s =
     (case s of
        [] \<Rightarrow> 0
      | c # _ \<Rightarrow>
          if asciiSpace c then 1
          else (case filter (\<lambda>u. prefix u s) unicodeSpaces of [] \<Rightarrow> 0 | u # _ \<Rightarrow> length u))"

definition spaceSuffixLen :: "string \<Rightarrow> nat" where
  "spaceSuffixLen s =
     (if s = [] then 0
      else if asciiSpace (last s) then 1
      else (case filter (\<lambda>u. suffix u s) unicodeSpaces of [] \<Rightarrow> 0 | u # _ \<Rightarrow> length u))"

function TrimLeft :: "string \<Rightarrow> string" where
  "TrimLeft s = (if spacePrefixLen s = 0 then s else TrimLeft (drop (spacePrefixLen s) s))"
  by pat_completeness auto
termination
  by (relation "measure length") (auto simp: spacePrefixLen_def split: list.splits)

declare TrimLeft.simps [simp del]

function TrimRight :: "string \<Rightarrow> string" where
  "TrimRight s =
     (if spaceSuffixLen s = 0 then s else TrimRight (take (length s - spaceSuffixLen s) s))"
  by pat_completeness auto
termination
  by (relation "measure length") (auto simp: spaceSuffixLen_def split: if_splits)

declare TrimRight.simps [simp del]

definition TrimSpace :: "string \<Rightarrow> string" where
  "TrimSpace s = TrimRight (TrimLeft s)"

text \<open>
  \<^verbatim>\<open>rune(n)\<close> for an \<^verbatim>\<open>int\<close> \<open>n\<close> keeps the low 32 bits, read as a signed number, and
  \<^verbatim>\<open>string(r)\<close> for a rune \<open>r\<close> is the UTF-8 encoding of the code point \<open>r\<close>, or of U+FFFD
  when \<open>r\<close> is no valid code point.
\<close>

definition rune :: "int \<Rightarrow> int" where
  "rune n = (n + 2147483648) mod 4294967296 - 2147483648"

definition string_of_rune :: "int \<Rightarrow> string" where
  "string_of_rune r =
     (if r < 0 \<or> 1114111 < r \<or> (55296 \<le> r \<and> r \<le> 57343)
        then [CHR 0xEF, CHR 0xBF, CHR 0xBD]
      else if r < 128 then [char_of r]
      else if r < 2048 then [char_of (192 + r div 64), char_of (128 + r mod 64)]
      else if r < 65536
        then [char_of (224 + r div 4096), char_of (128 + r div 64 mod 64), char_of (128 + r mod 64)]
      else [char_of (240 + r div 262144), char_of (128 + r div 4096 mod 64),
            char_of (128 + r div 64 mod 64), char_of (128 + r mod 64)])"

section \<open>Output truncation (internal/probe)\<close>

definition DefaultMaxLines :: int where
  "DefaultMaxLines = 500"

definition DefaultMaxBytes :: int where
  "DefaultMaxBytes = 64 * 1024"

text \<open>
  The loop of \<^verbatim>\<open>formatBytes\<close>:
  \<^verbatim>\<open>for n := b / unit; n >= unit; n /= unit { div *= unit; exp++ }\<close>
  The state is \<open>(n, div, exp)\<close>; the result is \<open>(div, exp)\<close> when the loop ends.
\<close>

function formatBytes_loop :: "int \<Rightarrow> int \<Rightarrow> nat \<Rightarrow> int \<times> nat" where
  "formatBytes_loop n dv ex =
     (if n \<ge> 1024 then formatBytes_loop (n div 1024) (dv * 1024) (ex + 1) else (dv, ex))"
  by pat_completeness auto
termination
  by (relation "measure (\<lambda>(n, dv, ex). nat n)") auto

declare formatBytes_loop.simps [simp del]

text \<open>
  \<^verbatim>\<open>formatBytes\<close>. The digit is produced by \<^verbatim>\<open>string(rune(b/div+'0'))\<close>, the character whose
  code point is 48 more than the number. \<^verbatim>\<open>"KMGTPE"[exp]\<close> is in range for every 64-bit \<open>b\<close>
  (lemma \<open>formatBytes_loop_exp\<close>).
\<close>

definition formatBytes :: "int \<Rightarrow> string" where
  "formatBytes b =
     (if b < 1024 then string_of_rune (rune (b + 48)) @ ''B''
      else (case formatBytes_loop (b div 1024) 1024 0 of
              (dv, ex) \<Rightarrow> string_of_rune (rune (b div dv + 48)) @ [''KMGTPE'' ! ex] @ ''B''))"

text \<open>The two truncation steps of \<^verbatim>\<open>truncateOutput\<close>, each on the bound already made effective.\<close>

definition byteMarker :: "int \<Rightarrow> string" where
  "byteMarker maxBytes = ''\<newline>... [truncated: exceeded '' @ formatBytes maxBytes @ '']''"

definition lineMarker :: "int \<Rightarrow> string" where
  "lineMarker maxLines =
     ''\<newline>... [truncated: exceeded '' @ string_of_rune (rune (maxLines + 48)) @ '' lines]''"

definition truncateBytes :: "int \<Rightarrow> string \<Rightarrow> string" where
  "truncateBytes maxBytes output =
     (if int (length output) > maxBytes
      then take (nat maxBytes) output @ byteMarker maxBytes
      else output)"

definition truncateLines :: "int \<Rightarrow> string \<Rightarrow> string" where
  "truncateLines maxLines output =
     (let lines = Split_nl output in
      if int (length lines) > maxLines
      then Join_nl (take (nat maxLines) lines) @ lineMarker maxLines
      else output)"

definition effectiveBound :: "int \<Rightarrow> int \<Rightarrow> int" where
  "effectiveBound override dflt = (if override \<le> 0 then dflt else override)"

definition truncateOutput :: "string \<Rightarrow> int \<Rightarrow> int \<Rightarrow> string" where
  "truncateOutput output maxLines maxBytes =
     (let maxLines = effectiveBound maxLines DefaultMaxLines;
          maxBytes = effectiveBound maxBytes DefaultMaxBytes;
          output = truncateBytes maxBytes output;
          output = truncateLines maxLines output
      in TrimSpace output)"

section \<open>The data model (internal/probe, internal/platform)\<close>

datatype Status = StatusPending | StatusRunning | StatusSuccess | StatusSkipped | StatusFailed

record Task =
  Name :: string
  Command :: string
  Privilege :: string
  MaxLines :: int
  MaxBytes :: int
  Requires :: "string list"
  Tags :: "string list"
  Category :: string

record Profile =
  Name_p :: string
  Description :: string
  Platform_p :: string
  Tasks :: "Task list"

record TaskResult =
  Name_r :: string
  Command_r :: string
  Category_r :: string
  Status :: Status
  Output :: string
  Error :: string
  Duration :: int
  SkipReason :: string

record Platform =
  OS :: string
  Distro :: string
  DistroID :: string
  WM :: string
  IsRoot :: bool
  IsWayland :: bool

record Runner =
  Platform_run :: Platform
  Timeout :: int

definition DefaultTimeout :: int where
  "DefaultTimeout = 30 * 1000000000"

definition NewRunner :: "Platform \<Rightarrow> Runner" where
  "NewRunner p = \<lparr>Platform_run = p, Timeout = DefaultTimeout\<rparr>"

section \<open>What the program reads from its environment\<close>

text \<open>
  The outcome of the one subprocess a task spawns (\<^verbatim>\<open>cmd.Run()\<close> under a context with a
  deadline): the two captured buffers, the error \<^verbatim>\<open>cmd.Run\<close> returned (\<open>None\<close> is \<^verbatim>\<open>nil\<close>,
  \<open>Some m\<close> an error whose \<^verbatim>\<open>Error()\<close> is \<open>m\<close>), whether \<^verbatim>\<open>ctx.Err()\<close> is
  \<^verbatim>\<open>context.DeadlineExceeded\<close> afterwards, and the time \<^verbatim>\<open>time.Since(start)\<close> measured.
\<close>

record ProcOutcome =
  stdout :: string
  stderr :: string
  runErr :: "string option"
  deadlineExceeded :: bool
  elapsed :: int

text \<open>
  Everything outside the repository that its functions consult, as parameters:
  \<^item> \<open>LookPath name\<close>: \<^verbatim>\<open>exec.LookPath(name)\<close> returns no error;
  \<^item> \<open>sh timeout command\<close>: what running \<^verbatim>\<open>sh -c command\<close> under the deadline does;
  \<^item> \<open>durationString d\<close>: \<^verbatim>\<open>time.Duration(d).String()\<close>;
  \<^item> \<open>timeFormat layout t\<close>: \<^verbatim>\<open>t.Format(layout)\<close>;
  \<^item> \<open>unicodeToLower\<close>, \<open>unicodeTitle\<close>: what \<^verbatim>\<open>strings.ToLower\<close> and \<^verbatim>\<open>strings.Title\<close> return
    for a string with a byte outside ASCII (the Unicode tables are not modelled);
  \<^item> \<open>yamlUnmarshal data\<close>: the profile \<^verbatim>\<open>yaml.Unmarshal\<close> fills in from the bytes of a
    manifest, or its error;
  \<^item> \<open>tokenizer\<close>: the codec \<^verbatim>\<open>NewTokenCounter\<close> obtains, as the function \<^verbatim>\<open>Count\<close>
    computes with it; \<open>None\<close> when \<^verbatim>\<open>NewTokenCounter\<close> returns an error.
\<close>

record Env =
  LookPath :: "string \<Rightarrow> bool"
  sh :: "int \<Rightarrow> string \<Rightarrow> ProcOutcome"
  durationString :: "int \<Rightarrow> string"
  timeFormat :: "string \<Rightarrow> int \<Rightarrow> string"
  unicodeToLower :: "string \<Rightarrow> string"
  unicodeTitle :: "string \<Rightarrow> string"
  yamlUnmarshal :: "string \<Rightarrow> string + Profile"
  tokenizer :: "(string \<Rightarrow> nat) option"

text \<open>The effects a call leaves behind, in the order they happen.\<close>

datatype Event = LookedUp string | Spawned string

definition isASCII :: "string \<Rightarrow> bool" where
  "isASCII s = list_all (\<lambda>c. (of_char c :: nat) < 128) s"

definition isUpperASCII :: "char \<Rightarrow> bool" where
  "isUpperASCII c = (CHR ''A'' \<le> c \<and> c \<le> CHR ''Z'')"

definition isLowerASCII :: "char \<Rightarrow> bool" where
  "isLowerASCII c = (CHR ''a'' \<le> c \<and> c \<le> CHR ''z'')"

definition isDigitASCII :: "char \<Rightarrow> bool" where
  "isDigitASCII c = (CHR ''0'' \<le> c \<and> c \<le> CHR ''9'')"

definition lowerASCII :: "char \<Rightarrow> char" where
  "lowerASCII c = (if isUpperASCII c then char_of ((of_char c :: nat) + 32) else c)"

definition upperASCII :: "char \<Rightarrow> char" where
  "upperASCII c = (if isLowerASCII c then char_of ((of_char c :: nat) - 32) else c)"

text \<open>\<^verbatim>\<open>strings.ToLower\<close>: on an ASCII string, \<open>A\<close> to \<open>Z\<close> become \<open>a\<close> to \<open>z\<close>.\<close>

definition ToLower :: "Env \<Rightarrow> string \<Rightarrow> string" where
  "ToLower env s = (if isASCII s then map lowerASCII s else unicodeToLower env s)"

text \<open>\<^verbatim>\<open>strings.Contains(s, substr)\<close>.\<close>

definition Contains :: "string \<Rightarrow> string \<Rightarrow> bool" where
  "Contains s substr = sublist substr s"

section \<open>Eligibility (Platform.MatchesTags, Runner.CanRun)\<close>

text \<open>The loop of \<^verbatim>\<open>MatchesTags\<close>: the first tag that matches ends it with \<open>True\<close>.\<close>

fun MatchesTags_loop :: "Env \<Rightarrow> Platform \<Rightarrow> string list \<Rightarrow> bool" where
  "MatchesTags_loop env p [] = False"
| "MatchesTags_loop env p (t # tags) =
     (let tag = ToLower env t in
      if tag = ''wayland'' then (if IsWayland p then True else MatchesTags_loop env p tags)
      else if tag = ''x11''
        then (if \<not> IsWayland p \<and> WM p \<noteq> [] then True else MatchesTags_loop env p tags)
      else if tag = ''hyprland''
        then (if Contains (WM p) ''hyprland'' then True else MatchesTags_loop env p tags)
      else if tag = ''sway''
        then (if Contains (WM p) ''sway'' then True else MatchesTags_loop env p tags)
      else if tag = ''gnome''
        then (if Contains (WM p) ''gnome'' then True else MatchesTags_loop env p tags)
      else if tag = ''kde'' \<or> tag = ''plasma''
        then (if Contains (WM p) ''kde'' \<or> Contains (WM p) ''plasma'' then True
              else MatchesTags_loop env p tags)
      else (if Contains (Distro p) tag \<or> Contains (WM p) tag then True
            else MatchesTags_loop env p tags))"

definition MatchesTags :: "Env \<Rightarrow> Platform \<Rightarrow> string list \<Rightarrow> bool" where
  "MatchesTags env p tags = (if length tags = 0 then True else MatchesTags_loop env p tags)"

text \<open>
  The dependency loop of \<^verbatim>\<open>CanRun\<close>: \<^verbatim>\<open>exec.LookPath\<close> is called on the names in order and
  the loop returns at the first one that does not resolve. The result is that name, if any,
  and the look-ups made.
\<close>

fun checkRequires :: "(string \<Rightarrow> bool) \<Rightarrow> string list \<Rightarrow> string option \<times> Event list" where
  "checkRequires look [] = (None, [])"
| "checkRequires look (req # reqs) =
     (if \<not> look req then (Some req, [LookedUp req])
      else (case checkRequires look reqs of (missing, evs) \<Rightarrow> (missing, LookedUp req # evs)))"

text \<open>\<^verbatim>\<open>Runner.CanRun\<close>: the pair the Go function returns, and the look-ups it made.\<close>

definition CanRun :: "Env \<Rightarrow> Runner \<Rightarrow> Task \<Rightarrow> (bool \<times> string) \<times> Event list" where
  "CanRun env r task =
     (if Privilege task = ''sudo'' \<and> \<not> IsRoot (Platform_run r)
      then ((False, ''Requires sudo privileges''), [])
      else (case checkRequires (LookPath env) (Requires task) of
              (Some req, evs) \<Rightarrow> ((False, ''Missing dependency: '' @ req), evs)
            | (None, evs) \<Rightarrow>
                if length (Tags task) > 0 \<and> \<not> MatchesTags env (Platform_run r) (Tags task)
                then ((False, ''Environment mismatch: requires '' @ Join (Tags task) '' or ''), evs)
                else ((True, []), evs)))"

section \<open>Runner.Run\<close>

definition initialResult :: "Task \<Rightarrow> TaskResult" where
  "initialResult task =
     \<lparr>Name_r = Name task, Command_r = Command task, Category_r = Category task,
      Status = StatusPending, Output = [], Error = [], Duration = 0, SkipReason = []\<rparr>"

text \<open>The last step of \<^verbatim>\<open>Run\<close>, \<^verbatim>\<open>// Determine status\<close>, on the result filled so far.\<close>

definition determineStatus :: "Env \<Rightarrow> Runner \<Rightarrow> ProcOutcome \<Rightarrow> TaskResult \<Rightarrow> TaskResult" where
  "determineStatus env r p result =
     (if deadlineExceeded p
      then result\<lparr>Status := StatusFailed,
                  Error := ''Command timed out after '' @ durationString env (Timeout r)\<rparr>
      else (case runErr p of
              Some msg \<Rightarrow>
                (let result = result\<lparr>Status := StatusFailed\<rparr> in
                 if Error result = [] then result\<lparr>Error := msg\<rparr> else result)
            | None \<Rightarrow> result\<lparr>Status := StatusSuccess\<rparr>))"

text \<open>\<^verbatim>\<open>Runner.Run\<close>: the result, and the look-ups and the subprocess the call made.\<close>

definition Run :: "Env \<Rightarrow> Runner \<Rightarrow> Task \<Rightarrow> TaskResult \<times> Event list" where
  "Run env r task =
     (let result = initialResult task in
      case CanRun env r task of
        ((canRun, reason), evs) \<Rightarrow>
          if \<not> canRun then (result\<lparr>Status := StatusSkipped, SkipReason := reason\<rparr>, evs)
          else
            (let p = sh env (Timeout r) (Command task);
                 result = result\<lparr>Duration := elapsed p\<rparr>;
                 result = result\<lparr>Output := truncateOutput (stdout p) (MaxLines task) (MaxBytes task)\<rparr>;
                 result = result\<lparr>Error := truncateOutput (stderr p) (MaxLines task) (MaxBytes task)\<rparr>
             in (determineStatus env r p result, evs @ [Spawned (Command task)])))"

section \<open>The manifest loader\<close>

text \<open>
  The embedded file system as the loader sees it: the entries \<^verbatim>\<open>fs.WalkDir\<close> hands to its
  callback, in the order of the walk, each with the error the walk met there, if any; and
  \<^verbatim>\<open>ReadFile\<close>, which returns the bytes of a file or an error.
\<close>

record WalkEntry =
  path :: string
  IsDir :: bool
  walkErr :: "string option"

record EmbedFS =
  walk :: "WalkEntry list"
  ReadFile :: "string \<Rightarrow> string + string"

record Loader =
  fs :: EmbedFS
  platform :: Platform

definition HasSuffix :: "string \<Rightarrow> string \<Rightarrow> bool" where
  "HasSuffix s suf = suffix suf s"

definition TrimSuffix :: "string \<Rightarrow> string \<Rightarrow> string" where
  "TrimSuffix s suf = (if HasSuffix s suf then take (length s - length suf) s else s)"

text \<open>\<^verbatim>\<open>filepath.Base\<close> with \<open>/\<close> as the separator.\<close>

definition Base :: "string \<Rightarrow> string" where
  "Base p =
     (if p = [] then ''.''
      else (let q = rev (dropWhile (\<lambda>c. c = CHR ''/'') (rev p));
                q = rev (takeWhile (\<lambda>c. c \<noteq> CHR ''/'') (rev q))
            in if q = [] then ''/'' else q))"

definition loadProfile :: "Env \<Rightarrow> Loader \<Rightarrow> string \<Rightarrow> string + Profile" where
  "loadProfile env l pth =
     (case ReadFile (fs l) pth of
        Inl err \<Rightarrow> Inl err
      | Inr data \<Rightarrow>
          (case yamlUnmarshal env data of
             Inl err \<Rightarrow> Inl err
           | Inr profile \<Rightarrow>
               (let category = TrimSuffix (Base pth) ''.yaml'' in
                Inr (profile\<lparr>Tasks :=
                       map (\<lambda>t. if Category t = [] then t\<lparr>Category := category\<rparr> else t)
                         (Tasks profile)\<rparr>))))"

definition matchesPlatform :: "Env \<Rightarrow> Loader \<Rightarrow> Profile \<Rightarrow> bool" where
  "matchesPlatform env l profile =
     (if Platform_p profile = [] then True
      else (let profilePlatform = ToLower env (Platform_p profile);
                currentPlatform = ToLower env (DistroID (platform l))
            in if profilePlatform = currentPlatform then True
               else if Contains currentPlatform profilePlatform then True
               else if profilePlatform = ''linux'' \<and> OS (platform l) = ''linux'' then True
               else False))"

text \<open>
  \<^verbatim>\<open>LoadAll\<close>: the callback of the walk, entry by entry, on the profiles gathered so far. The
  Go function returns both the profiles and the error, so does this one.
\<close>

fun LoadAll_walk ::
  "Env \<Rightarrow> Loader \<Rightarrow> WalkEntry list \<Rightarrow> Profile list \<Rightarrow> Profile list \<times> string option" where
  "LoadAll_walk env l [] profiles = (profiles, None)"
| "LoadAll_walk env l (e # es) profiles =
     (case walkErr e of
        Some err \<Rightarrow> (profiles, Some err)
      | None \<Rightarrow>
          if IsDir e \<or> \<not> HasSuffix (path e) ''.yaml'' then LoadAll_walk env l es profiles
          else (case loadProfile env l (path e) of
                  Inl err \<Rightarrow> (profiles, Some (''loading '' @ path e @ '': '' @ err))
                | Inr profile \<Rightarrow>
                    if matchesPlatform env l profile
                    then LoadAll_walk env l es (profiles @ [profile])
                    else LoadAll_walk env l es profiles))"

definition LoadAll :: "Env \<Rightarrow> Loader \<Rightarrow> Profile list \<times> string option" where
  "LoadAll env l = LoadAll_walk env l (walk (fs l)) []"

definition FilterTasks :: "Loader \<Rightarrow> Profile list \<Rightarrow> Task list" where
  "FilterTasks l profiles = concat (map Tasks profiles)"

definition GetAllTasks :: "Env \<Rightarrow> Loader \<Rightarrow> string + Task list" where
  "GetAllTasks env l =
     (case LoadAll env l of
        (profiles, Some err) \<Rightarrow> Inl err
      | (profiles, None) \<Rightarrow> Inr (FilterTasks l profiles))"

text \<open>
  The sources of a walk: the profiles of its manifests (the files whose name ends in
  \<open>.yaml\<close>) that load, in the order of the walk.
\<close>

definition parsedProfiles :: "Env \<Rightarrow> Loader \<Rightarrow> Profile list" where
  "parsedProfiles env l =
     List.map_filter
       (\<lambda>e. if IsDir e \<or> \<not> HasSuffix (path e) ''.yaml'' then None
            else (case loadProfile env l (path e) of Inl err \<Rightarrow> None | Inr profile \<Rightarrow> Some profile))
       (walk (fs l))"

section \<open>The index-addressed scheduler (runWithoutUI)\<close>

text \<open>
  \<^verbatim>\<open>runWithoutUI\<close> starts \<open>workerCount\<close> goroutines, sends the indices \<open>0, 1, ...\<close> into a
  buffered channel, closes it and waits for the workers. The state of that computation:
  how many indices the main goroutine has sent, whether it has closed the channel, what the
  channel holds, the index each busy worker has received and not yet written a result for,
  how many workers have left their loop (\<^verbatim>\<open>wg.Done\<close>), and the array of results.
\<close>

record Sched =
  fed :: nat
  closed :: bool
  chan :: "nat list"
  running :: "nat list"
  exited :: nat
  slots :: "TaskResult list"

text \<open>The zero value of \<^verbatim>\<open>TaskResult\<close>, which \<^verbatim>\<open>make\<close> fills the array with.\<close>

definition zeroResult :: TaskResult where
  "zeroResult =
     \<lparr>Name_r = [], Command_r = [], Category_r = [], Status = StatusPending, Output = [],
      Error = [], Duration = 0, SkipReason = []\<rparr>"

definition initSched :: "Task list \<Rightarrow> Sched" where
  "initSched tasks =
     \<lparr>fed = 0, closed = False, chan = [], running = [], exited = 0,
      slots = replicate (length tasks) zeroResult\<rparr>"

text \<open>
  The atomic steps, any of which may come next when it is enabled:
  \<^item> \<open>Feed\<close>: the main goroutine sends the next index (the channel has room for all of them);
  \<^item> \<open>Close\<close>: after the last index, it closes the channel;
  \<^item> \<open>Take\<close>: a worker that is in its loop and holds no index receives the head of the channel;
  \<^item> \<open>Finish i\<close>: the worker holding \<open>i\<close> has run \<^verbatim>\<open>tasks[i]\<close> and writes \<^verbatim>\<open>results[i]\<close>
    (an index out of range would panic: the step is not enabled);
  \<^item> \<open>Exit\<close>: a worker that holds no index finds the channel closed and empty, and returns.
\<close>

datatype Action = Feed | Close | Take | Finish nat | Exit

definition numWorkers :: "int \<Rightarrow> nat" where
  "numWorkers workerCount = nat workerCount"

fun perform ::
  "(Task \<Rightarrow> TaskResult) \<Rightarrow> int \<Rightarrow> Task list \<Rightarrow> Action \<Rightarrow> Sched \<Rightarrow> Sched option" where
  "perform run workerCount tasks Feed s =
     (if \<not> closed s \<and> fed s < length tasks
      then Some (s\<lparr>chan := chan s @ [fed s], fed := fed s + 1\<rparr>) else None)"
| "perform run workerCount tasks Close s =
     (if \<not> closed s \<and> fed s = length tasks then Some (s\<lparr>closed := True\<rparr>) else None)"
| "perform run workerCount tasks Take s =
     (case chan s of
        [] \<Rightarrow> None
      | idx # rest \<Rightarrow>
          if length (running s) + exited s < numWorkers workerCount
          then Some (s\<lparr>chan := rest, running := idx # running s\<rparr>) else None)"
| "perform run workerCount tasks (Finish idx) s =
     (if idx \<in> set (running s) \<and> idx < length tasks \<and> idx < length (slots s)
      then Some (s\<lparr>running := remove1 idx (running s),
                    slots := (slots s)[idx := run (tasks ! idx)]\<rparr>)
      else None)"
| "perform run workerCount tasks Exit s =
     (if chan s = [] \<and> closed s \<and> length (running s) + exited s < numWorkers workerCount
      then Some (s\<lparr>exited := exited s + 1\<rparr>) else None)"

fun execute ::
  "(Task \<Rightarrow> TaskResult) \<Rightarrow> int \<Rightarrow> Task list \<Rightarrow> Action list \<Rightarrow> Sched \<Rightarrow> Sched option" where
  "execute run workerCount tasks [] s = Some s"
| "execute run workerCount tasks (a # as) s =
     (case perform run workerCount tasks a s of
        None \<Rightarrow> None
      | Some s' \<Rightarrow> execute run workerCount tasks as s')"

text \<open>\<^verbatim>\<open>wg.Wait()\<close> returns: the channel is closed and every worker has returned.\<close>

definition waitReturns :: "int \<Rightarrow> Sched \<Rightarrow> bool" where
  "waitReturns workerCount s = (closed s \<and> exited s = numWorkers workerCount)"

text \<open>
  \<^verbatim>\<open>runWithoutUI\<close> under a schedule: the array it returns when the schedule is a complete
  execution, \<open>None\<close> when the schedule is not one (a step that is not enabled, or steps missing).
\<close>

definition runWithoutUI ::
  "Env \<Rightarrow> Platform \<Rightarrow> Task list \<Rightarrow> int \<Rightarrow> Action list \<Rightarrow> TaskResult list option" where
  "runWithoutUI env plat tasks workerCount schedule =
     (let runner = NewRunner plat in
      case execute (\<lambda>t. fst (Run env runner t)) workerCount tasks schedule (initSched tasks) of
        None \<Rightarrow> None
      | Some s \<Rightarrow> if waitReturns workerCount s then Some (slots s) else None)"

text \<open>A schedule that runs the tasks one after the other on one worker.\<close>

definition sequentialSchedule :: "nat \<Rightarrow> nat \<Rightarrow> Action list" where
  "sequentialSchedule n w =
     replicate n Feed @ [Close] @ concat (map (\<lambda>i. [Take, Finish i]) [0..<n]) @ replicate w Exit"

text \<open>
  What holds in every state the scheduler reaches: the indices sent so far are each in the
  channel, held by a worker, or done, and a done index has the result of its task in its
  slot; no worker has returned before the channel was closed and empty.
\<close>

definition schedInv :: "(Task \<Rightarrow> TaskResult) \<Rightarrow> int \<Rightarrow> Task list \<Rightarrow> Sched \<Rightarrow> bool" where
  "schedInv run workerCount tasks s =
     (fed s \<le> length tasks
      \<and> (closed s \<longrightarrow> fed s = length tasks)
      \<and> length (slots s) = length tasks
      \<and> length (running s) + exited s \<le> numWorkers workerCount
      \<and> (0 < exited s \<longrightarrow> chan s = [] \<and> closed s)
      \<and> (\<forall>i \<in> set (chan s) \<union> set (running s). i < fed s)
      \<and> (\<forall>i < fed s. i \<in> set (chan s) \<or> i \<in> set (running s) \<or> slots s ! i = run (tasks ! i)))"

text \<open>A number that every step makes smaller: no execution is longer than its first value.\<close>

definition schedMeasure :: "int \<Rightarrow> Task list \<Rightarrow> Sched \<Rightarrow> nat" where
  "schedMeasure workerCount tasks s =
     3 * (length tasks - fed s) + 2 * length (chan s) + length (running s)
     + (if closed s then 0 else 1) + (numWorkers workerCount - exited s)"

section \<open>The report (internal/report)\<close>

record MarkdownReport =
  Platform_rep :: Platform
  Results :: "TaskResult list"
  Generated :: int

record categoryGroup =
  name :: string
  results :: "TaskResult list"

text \<open>\<^verbatim>\<open>fmt.Sprintf("%d", n)\<close>.\<close>

fun showNat :: "nat \<Rightarrow> string" where
  "showNat n =
     (if n < 10 then [char_of (48 + n)] else showNat (n div 10) @ [char_of (48 + n mod 10)])"

declare showNat.simps [simp del]

definition showInt :: "int \<Rightarrow> string" where
  "showInt i = (if i < 0 then ''-'' @ showNat (nat (- i)) else showNat (nat i))"

text \<open>
  \<^verbatim>\<open>strings.Title\<close> on an ASCII string: a letter that begins a word (the character before it
  is neither a letter, a digit nor an underscore) is mapped to upper case, every other
  character is kept as it is.
\<close>

definition isSeparatorASCII :: "char \<Rightarrow> bool" where
  "isSeparatorASCII c =
     (\<not> (isDigitASCII c \<or> isLowerASCII c \<or> isUpperASCII c \<or> c = CHR ''_''))"

fun Title_loop :: "char \<Rightarrow> string \<Rightarrow> string" where
  "Title_loop prev [] = []"
| "Title_loop prev (c # cs) =
     (if isSeparatorASCII prev then upperASCII c else c) # Title_loop c cs"

definition Title :: "Env \<Rightarrow> string \<Rightarrow> string" where
  "Title env s = (if isASCII s then Title_loop (CHR '' '') s else unicodeTitle env s)"

text \<open>The label a result is grouped under: the first three statements of the loop body.\<close>

definition categoryLabel :: "Env \<Rightarrow> TaskResult \<Rightarrow> string" where
  "categoryLabel env result =
     (let cat = Category_r result;
          cat = (if cat = [] then ''General'' else cat)
      in Title env cat)"

text \<open>A missing key of a Go map reads as the zero value, here the empty slice.\<close>

definition lookupResults :: "(string \<rightharpoonup> TaskResult list) \<Rightarrow> string \<Rightarrow> TaskResult list" where
  "lookupResults m k = (case m k of None \<Rightarrow> [] | Some rs \<Rightarrow> rs)"

text \<open>The first loop of \<^verbatim>\<open>groupByCategory\<close>, on \<^verbatim>\<open>categoryMap\<close> and \<^verbatim>\<open>categoryOrder\<close>.\<close>

fun groupByCategory_loop ::
  "Env \<Rightarrow> TaskResult list \<Rightarrow> (string \<rightharpoonup> TaskResult list) \<Rightarrow> string list \<Rightarrow>
   (string \<rightharpoonup> TaskResult list) \<times> string list" where
  "groupByCategory_loop env [] categoryMap categoryOrder = (categoryMap, categoryOrder)"
| "groupByCategory_loop env (result # rest) categoryMap categoryOrder =
     (let cat = categoryLabel env result;
          categoryOrder = (if categoryMap cat = None then categoryOrder @ [cat] else categoryOrder);
          categoryMap = categoryMap(cat \<mapsto> lookupResults categoryMap cat @ [result])
      in groupByCategory_loop env rest categoryMap categoryOrder)"

text \<open>\<^verbatim>\<open>sort.Strings\<close> orders strings bytewise, as the order on \<^typ>\<open>string\<close> does here.\<close>

definition groupByCategory :: "Env \<Rightarrow> MarkdownReport \<Rightarrow> categoryGroup list" where
  "groupByCategory env r =
     (case groupByCategory_loop env (Results r) Map.empty [] of
        (categoryMap, categoryOrder) \<Rightarrow>
          map (\<lambda>n. \<lparr>name = n, results = lookupResults categoryMap n\<rparr>) (sort categoryOrder))"

text \<open>A \<^verbatim>\<open>strings.Builder\<close> is the text written so far; a write appends to it.\<close>

definition writeTaskResult :: "string \<Rightarrow> TaskResult \<Rightarrow> string" where
  "writeTaskResult b result =
     (if Status result = StatusFailed \<or> Status result = StatusSkipped then b
      else (let b = b @ ''\<newline>### '' @ Name_r result @ ''\<newline>'';
                b = b @ ''```\<newline>$ '' @ Command_r result @ ''\<newline>'';
                b = (if Output result \<noteq> []
                     then (let b = b @ Output result in
                           if \<not> HasSuffix (Output result) ''\<newline>'' then b @ ''\<newline>'' else b)
                     else b @ ''[no output]\<newline>'')
            in b @ ''```\<newline>''))"

definition failedLine :: "TaskResult \<Rightarrow> string" where
  "failedLine result =
     (let errMsg = Error result;
          errMsg = (if errMsg = [] then ''Unknown error'' else errMsg)
      in ''- **'' @ Name_r result @ ''**: Failed ('' @ errMsg @ '')\<newline>'')"

definition skippedLine :: "TaskResult \<Rightarrow> string" where
  "skippedLine result =
     (let reason = SkipReason result;
          reason = (if reason = [] then ''Unknown reason'' else reason)
      in ''- **'' @ Name_r result @ ''**: Skipped ('' @ reason @ '')\<newline>'')"

text \<open>The first loop of \<^verbatim>\<open>writeErrorsSection\<close>, on the slices \<^verbatim>\<open>errors\<close> and \<^verbatim>\<open>skipped\<close>.\<close>

fun collectErrors ::
  "TaskResult list \<Rightarrow> TaskResult list \<Rightarrow> TaskResult list \<Rightarrow> TaskResult list \<times> TaskResult list" where
  "collectErrors [] errors skipped = (errors, skipped)"
| "collectErrors (result # rest) errors skipped =
     (case Status result of
        StatusFailed \<Rightarrow> collectErrors rest (errors @ [result]) skipped
      | StatusSkipped \<Rightarrow> collectErrors rest errors (skipped @ [result])
      | _ \<Rightarrow> collectErrors rest errors skipped)"

definition writeErrorsSection :: "MarkdownReport \<Rightarrow> string \<Rightarrow> string" where
  "writeErrorsSection r b =
     (case collectErrors (Results r) [] [] of
        (errors, skipped) \<Rightarrow>
          if length errors = 0 \<and> length skipped = 0 then b
          else (let b = b @ ''\<newline>## Errors & Skipped\<newline>\<newline>'';
                    b = foldl (\<lambda>b result. b @ failedLine result) b errors;
                    b = foldl (\<lambda>b result. b @ skippedLine result) b skipped
                in b))"

definition writeCategory :: "string \<Rightarrow> categoryGroup \<Rightarrow> string" where
  "writeCategory b cat = foldl writeTaskResult (b @ ''\<newline>## '' @ name cat @ ''\<newline>'') (results cat)"

definition generateContent :: "Env \<Rightarrow> MarkdownReport \<Rightarrow> string" where
  "generateContent env r =
     (let categories = groupByCategory env r;
          b = foldl writeCategory [] categories
      in writeErrorsSection r b)"

definition RFC3339 :: string where
  "RFC3339 = ''2006-01-02T15:04:05Z07:00''"

definition reportHeader :: "Env \<Rightarrow> MarkdownReport \<Rightarrow> int \<Rightarrow> string" where
  "reportHeader env r tokenCount =
     (let b = ''# SysProbe Diagnostic Report\<newline>\<newline>'';
          b = b @ ''Generated: '' @ timeFormat env RFC3339 (Generated r) @ ''\<newline>'';
          b = b @ ''Platform: '' @ DistroID (Platform_rep r);
          b = (if WM (Platform_rep r) \<noteq> [] then b @ '' ('' @ WM (Platform_rep r) @ '')'' else b);
          b = b @ ''\<newline>''
      in b @ ''Token Count: '' @ showInt tokenCount @ ''\<newline>'')"

definition generateWithTokenCount :: "Env \<Rightarrow> MarkdownReport \<Rightarrow> int \<Rightarrow> string" where
  "generateWithTokenCount env r tokenCount = reportHeader env r tokenCount @ generateContent env r"

text \<open>
  The three generators return \<^verbatim>\<open>(string, int, error)\<close>; the error is \<open>None\<close> for \<^verbatim>\<open>nil\<close>.
  \<^verbatim>\<open>NewTokenCounter\<close> fails exactly when the environment has no tokenizer.
\<close>

definition Generate :: "Env \<Rightarrow> MarkdownReport \<Rightarrow> string \<times> int \<times> string option" where
  "Generate env r =
     (let content = generateContent env r in
      case tokenizer env of
        None \<Rightarrow>
          (let tokenCount = int (length content) div 4
           in (generateWithTokenCount env r tokenCount, tokenCount, None))
      | Some count \<Rightarrow>
          (let tokenCount = int (count content);
               report = generateWithTokenCount env r tokenCount;
               finalTokenCount = int (count report)
           in (report, finalTokenCount, None)))"

definition minifiedEntry :: "TaskResult \<Rightarrow> string" where
  "minifiedEntry result =
     (if Status result = StatusSuccess \<and> Output result \<noteq> []
      then ''\<newline>## '' @ Name_r result @ ''\<newline>```\<newline>'' @ TrimSpace (Output result) @ ''\<newline>```\<newline>''
      else [])"

definition GenerateMinified :: "Env \<Rightarrow> MarkdownReport \<Rightarrow> string \<times> int \<times> string option" where
  "GenerateMinified env r =
     (let b = ''# SysProbe Report\<newline>'';
          b = b @ ''Time:'' @ timeFormat env ''2006-01-02T15:04'' (Generated r)
                @ '' Platform:'' @ DistroID (Platform_rep r) @ ''\<newline>'';
          content = foldl (\<lambda>b result. b @ minifiedEntry result) b (Results r)
      in case tokenizer env of
           None \<Rightarrow> (content, int (length content) div 4, None)
         | Some count \<Rightarrow> (content, int (count content), None))"

definition introEntry :: "TaskResult \<Rightarrow> string" where
  "introEntry result =
     (if Category_r result \<noteq> ''intro'' then []
      else if Status result = StatusSuccess \<and> Output result \<noteq> []
      then ''## '' @ Name_r result @ ''\<newline>'' @ ''```\<newline>'' @ TrimSpace (Output result)
           @ ''\<newline>```\<newline>\<newline>''
      else [])"

definition GenerateIntro :: "Env \<Rightarrow> MarkdownReport \<Rightarrow> string \<times> int \<times> string option" where
  "GenerateIntro env r =
     (let b = ''# System Context\<newline>\<newline>'';
          b = b @ ''Use this information to understand my environment when helping me.\<newline>\<newline>'';
          content = foldl (\<lambda>b result. b @ introEntry result) b (Results r)
      in case tokenizer env of
           None \<Rightarrow> (content, int (length content) div 4, None)
         | Some count \<Rightarrow> (content, int (count content), None))"

section \<open>Concrete inputs\<close>

text \<open>
  An environment in which only \<open>ls\<close> is on the search path, no tokenizer is available and
  every subprocess is killed at the deadline, having written to both of its streams. The one
  manifest that parses is the one of \<open>suseProfile\<close>.
\<close>

definition suseProfile :: Profile where
  "suseProfile =
     \<lparr>Name_p = ''suse'', Description = ''SUSE family'', Platform_p = ''SUSE'',
      Tasks = [\<lparr>Name = ''Zypper repos'', Command = ''zypper lr'', Privilege = [], MaxLines = 0,
                MaxBytes = 0, Requires = [''zypper''], Tags = [], Category = []\<rparr>]\<rparr>"

definition exampleEnv :: Env where
  "exampleEnv =
     \<lparr>LookPath = (\<lambda>n. n = ''ls''),
      sh = (\<lambda>t c. \<lparr>stdout = ''partial out'', stderr = ''partial err'',
                    runErr = Some ''signal: killed'', deadlineExceeded = True, elapsed = t\<rparr>),
      durationString = (\<lambda>d. if d = 30000000000 then ''30s'' else ''?''),
      timeFormat = (\<lambda>l t. ''2026-01-01T00:00:00Z''),
      unicodeToLower = (\<lambda>s. s), unicodeTitle = (\<lambda>s. s),
      yamlUnmarshal = (\<lambda>d. if d = ''name: suse'' then Inr suseProfile
                           else Inl ''yaml: unmarshal errors''),
      tokenizer = None\<rparr>"

definition examplePlatform :: Platform where
  "examplePlatform =
     \<lparr>OS = ''linux'', Distro = ''opensuse'', DistroID = ''opensuse_linux'', WM = ''sway'',
      IsRoot = False, IsWayland = True\<rparr>"

definition exampleTask :: Task where
  "exampleTask =
     \<lparr>Name = ''Kernel'', Command = ''uname -a'', Privilege = [], MaxLines = 0, MaxBytes = 0,
      Requires = [], Tags = [], Category = ''system''\<rparr>"

definition sudoTask :: Task where
  "sudoTask = exampleTask\<lparr>Name := ''DMI'', Command := ''dmidecode'', Privilege := ''sudo''\<rparr>"

definition slowTask :: Task where
  "slowTask = exampleTask\<lparr>Name := ''Slow'', Command := ''sleep 60''\<rparr>"

definition exampleFS :: EmbedFS where
  "exampleFS =
     \<lparr>walk = [\<lparr>path = ''probes'', IsDir = True, walkErr = None\<rparr>,
              \<lparr>path = ''probes/suse.yaml'', IsDir = False, walkErr = None\<rparr>],
      ReadFile = (\<lambda>p. if p = ''probes/suse.yaml'' then Inr ''name: suse''
                      else Inl ''file does not exist'')\<rparr>"

definition exampleLoader :: Loader where
  "exampleLoader = \<lparr>fs = exampleFS, platform = examplePlatform\<rparr>"

definition loadedSuseProfile :: Profile where
  "loadedSuseProfile =
     \<lparr>Name_p = ''suse'', Description = ''SUSE family'', Platform_p = ''SUSE'',
      Tasks = [\<lparr>Name = ''Zypper repos'', Command = ''zypper lr'', Privilege = [], MaxLines = 0,
                MaxBytes = 0, Requires = [''zypper''], Tags = [], Category = ''suse''\<rparr>]\<rparr>"

definition mkResult :: "string \<Rightarrow> string \<Rightarrow> Status \<Rightarrow> string \<Rightarrow> TaskResult" where
  "mkResult n c st out =
     \<lparr>Name_r = n, Command_r = ''true'', Category_r = c, Status = st, Output = out, Error = [],
      Duration = 0, SkipReason = []\<rparr>"

definition networkReport :: MarkdownReport where
  "networkReport =
     \<lparr>Platform_rep = examplePlatform,
      Results = [mkResult ''a'' ''network'' StatusSuccess ''up'',
                 mkResult ''b'' ''Network'' StatusSuccess ''up'',
                 mkResult ''c'' ''NETWORK'' StatusSuccess ''up''],
      Generated = 0\<rparr>"

definition emptyReport :: MarkdownReport where
  "emptyReport = \<lparr>Platform_rep = examplePlatform, Results = [], Generated = 0\<rparr>"

section \<open>Output truncation: proofs\<close>

lemma truncateOutput_stages:
  "truncateOutput output maxLines maxBytes =
     TrimSpace (truncateLines (effectiveBound maxLines DefaultMaxLines)
                  (truncateBytes (effectiveBound maxBytes DefaultMaxBytes) output))"
  by (simp add: truncateOutput_def Let_def)

lemma effectiveBound_cases:
  "effectiveBound override dflt = (if 0 < override then override else dflt)"
  by (simp add: effectiveBound_def)

lemma truncateBytes_at_bound:
  "int (length output) \<le> maxBytes \<Longrightarrow> truncateBytes maxBytes output = output"
  by (simp add: truncateBytes_def)

lemma truncateBytes_over_bound:
  "maxBytes < int (length output) \<Longrightarrow>
   truncateBytes maxBytes output = take (nat maxBytes) output @ byteMarker maxBytes"
  by (simp add: truncateBytes_def)

lemma truncateLines_at_bound:
  "int (length (Split_nl output)) \<le> maxLines \<Longrightarrow> truncateLines maxLines output = output"
  by (simp add: truncateLines_def Let_def)

lemma truncateLines_over_bound:
  "maxLines < int (length (Split_nl output)) \<Longrightarrow>
   truncateLines maxLines output =
     Join_nl (take (nat maxLines) (Split_nl output)) @ lineMarker maxLines"
  by (simp add: truncateLines_def Let_def)

lemma formatBytes_loop_exp:
  "n < 1024 ^ Suc k \<Longrightarrow> snd (formatBytes_loop n dv ex) \<le> ex + k"
proof (induction k arbitrary: n dv ex)
  case 0
  then show ?case by (subst formatBytes_loop.simps) simp
next
  case (Suc k)
  show ?case
  proof (cases "1024 \<le> n")
    case True
    have "n div 1024 < 1024 ^ Suc k"
      using Suc.prems True by simp
    then have "snd (formatBytes_loop (n div 1024) (dv * 1024) (ex + 1)) \<le> ex + 1 + k"
      by (rule Suc.IH)
    then show ?thesis
      using True by (subst formatBytes_loop.simps) simp
  next
    case False
    then show ?thesis by (subst formatBytes_loop.simps) simp
  qed
qed

text \<open>
  Claim C1, at the marker. The marker is meant to cite the bound, and the code builds the
  number with \<^verbatim>\<open>string(rune(n+'0'))\<close>, which is the decimal numeral of \<open>n\<close> only for
  \<open>n\<close> from 0 to 9. With a bound of 10 lines the marker reads \<open>exceeded : lines\<close>; with
  the default of 500 lines it holds the two bytes of U+0224 where \<open>500\<close> should be; with
  the default of 65536 bytes it reads \<open>exceeded pKB\<close>, not \<open>64KB\<close>.
\<close>

theorem truncateOutput_marker_defect:
  "truncateOutput ''1\<newline>2\<newline>3\<newline>4\<newline>5\<newline>6\<newline>7\<newline>8\<newline>9\<newline>10\<newline>11'' 10 0
     = ''1\<newline>2\<newline>3\<newline>4\<newline>5\<newline>6\<newline>7\<newline>8\<newline>9\<newline>10\<newline>... [truncated: exceeded : lines]''
   \<and> lineMarker DefaultMaxLines
     = ''\<newline>... [truncated: exceeded '' @ [CHR 0xC8, CHR 0xA4] @ '' lines]''
   \<and> byteMarker DefaultMaxBytes = ''\<newline>... [truncated: exceeded pKB]''"
  by code_simp

section \<open>Eligibility and the runner: proofs\<close>



lemma checkRequires_no_spawn: "Spawned c \<notin> set (snd (checkRequires look reqs))"
  by (induction reqs) (auto split: prod.splits)

lemma CanRun_no_spawn: "Spawned c \<notin> set (snd (CanRun env r task))"
  using checkRequires_no_spawn [of c "LookPath env" "Requires task"]
  by (auto simp: CanRun_def split: prod.splits option.splits)

lemma CanRun_reason_nonempty:
  "\<not> fst (fst (CanRun env r task)) \<Longrightarrow> snd (fst (CanRun env r task)) \<noteq> []"
  by (auto simp: CanRun_def split: prod.splits option.splits if_splits)

lemma CanRun_sudo:
  "Privilege task = ''sudo'' \<Longrightarrow> \<not> IsRoot (Platform_run r) \<Longrightarrow>
   CanRun env r task = ((False, ''Requires sudo privileges''), [])"
  by (simp add: CanRun_def)



lemma ToLower_sh: "ToLower (env\<lparr>sh := other\<rparr>) s = ToLower env s"
  by (simp add: ToLower_def)

lemma MatchesTags_loop_sh:
  "MatchesTags_loop (env\<lparr>sh := other\<rparr>) p tags = MatchesTags_loop env p tags"
  by (induction tags) (simp_all add: ToLower_sh Let_def)

lemma MatchesTags_sh: "MatchesTags (env\<lparr>sh := other\<rparr>) p tags = MatchesTags env p tags"
  unfolding MatchesTags_def by (simp only: MatchesTags_loop_sh)

lemma CanRun_sh: "CanRun (env\<lparr>sh := other\<rparr>) r task = CanRun env r task"
proof -
  have "LookPath (env\<lparr>sh := other\<rparr>) = LookPath env" by simp
  then show ?thesis unfolding CanRun_def by (simp only: MatchesTags_sh)
qed

lemma Run_skipped:
  "\<not> fst (fst (CanRun env r task)) \<Longrightarrow>
   Run env r task =
     ((initialResult task)\<lparr>Status := StatusSkipped, SkipReason := snd (fst (CanRun env r task))\<rparr>,
      snd (CanRun env r task))"
  by (cases "CanRun env r task") (auto simp: Run_def Let_def)

lemma Run_eligible:
  "fst (fst (CanRun env r task)) \<Longrightarrow>
   Run env r task =
     (determineStatus env r (sh env (Timeout r) (Command task))
        ((initialResult task)
           \<lparr>Duration := elapsed (sh env (Timeout r) (Command task)),
            Output := truncateOutput (stdout (sh env (Timeout r) (Command task)))
                        (MaxLines task) (MaxBytes task),
            Error := truncateOutput (stderr (sh env (Timeout r) (Command task)))
                       (MaxLines task) (MaxBytes task)\<rparr>),
      snd (CanRun env r task) @ [Spawned (Command task)])"
  by (cases "CanRun env r task") (auto simp: Run_def Let_def)

text \<open>
  Claim C5. When \<^verbatim>\<open>CanRun\<close> says no, \<^verbatim>\<open>Run\<close> returns the initial result with status
  \<open>Skipped\<close> and the reason of \<^verbatim>\<open>CanRun\<close> as skip reason; it spawns nothing (no \<open>Spawned\<close>
  event, and the result is the same whatever a subprocess would have done). A task asking
  for \<open>sudo\<close> on a platform that is not root is such a task.
\<close>

theorem Run_ineligible_skips:
  "\<not> fst (fst (CanRun env r task)) \<Longrightarrow>
     Run env r task =
       ((initialResult task)\<lparr>Status := StatusSkipped, SkipReason := snd (fst (CanRun env r task))\<rparr>,
        snd (CanRun env r task))
     \<and> Spawned c \<notin> set (snd (Run env r task))
     \<and> Run (env\<lparr>sh := other\<rparr>) r task = Run env r task
     \<and> (Privilege task = ''sudo'' \<and> \<not> IsRoot (Platform_run r) \<longrightarrow>
          Run env r task =
            ((initialResult task)\<lparr>Status := StatusSkipped, SkipReason := ''Requires sudo privileges''\<rparr>, []))"
proof -
  assume a: "\<not> fst (fst (CanRun env r task))"
  have r1: "Run env r task =
       ((initialResult task)\<lparr>Status := StatusSkipped, SkipReason := snd (fst (CanRun env r task))\<rparr>,
        snd (CanRun env r task))"
    using a by (rule Run_skipped)
  have r2: "Spawned c \<notin> set (snd (Run env r task))"
    using r1 CanRun_no_spawn [of c env r task] by simp
  have "\<not> fst (fst (CanRun (env\<lparr>sh := other\<rparr>) r task))"
    using a by (simp add: CanRun_sh)
  then have r3: "Run (env\<lparr>sh := other\<rparr>) r task = Run env r task"
    using r1 Run_skipped [of "env\<lparr>sh := other\<rparr>" r task] by (simp add: CanRun_sh)
  have r4: "Privilege task = ''sudo'' \<and> \<not> IsRoot (Platform_run r) \<longrightarrow>
          Run env r task =
            ((initialResult task)\<lparr>Status := StatusSkipped, SkipReason := ''Requires sudo privileges''\<rparr>, [])"
    using r1 by (auto simp: CanRun_sudo)
  show ?thesis using r1 r2 r3 r4 by blast
qed

theorem Run_ineligible_skips_witness:
  "\<not> fst (fst (CanRun exampleEnv (NewRunner examplePlatform) sudoTask))
   \<and> Run exampleEnv (NewRunner examplePlatform) sudoTask =
       (\<lparr>Name_r = ''DMI'', Command_r = ''dmidecode'', Category_r = ''system'',
         Status = StatusSkipped, Output = [], Error = [], Duration = 0,
         SkipReason = ''Requires sudo privileges''\<rparr>, [])
   \<and> Spawned ''dmidecode'' \<notin> set (snd (Run exampleEnv (NewRunner examplePlatform) sudoTask))"
proof -
  have h: "\<not> fst (fst (CanRun exampleEnv (NewRunner examplePlatform) sudoTask))"
    by (simp add: CanRun_def sudoTask_def exampleTask_def examplePlatform_def NewRunner_def)
  show ?thesis
    using h Run_ineligible_skips [OF h, of "''dmidecode''" "sh exampleEnv"]
    by (simp add: CanRun_def sudoTask_def exampleTask_def examplePlatform_def NewRunner_def
        initialResult_def)
qed

text \<open>
  Claim C6. The status of a result of \<^verbatim>\<open>Run\<close> is \<open>Success\<close>, \<open>Skipped\<close> or \<open>Failed\<close>, and
  its skip reason is not empty exactly when the status is \<open>Skipped\<close>.
\<close>

theorem Run_status_invariant:
  "(Status (fst (Run env r task)) = StatusSuccess
      \<or> Status (fst (Run env r task)) = StatusSkipped
      \<or> Status (fst (Run env r task)) = StatusFailed)
   \<and> ((SkipReason (fst (Run env r task)) \<noteq> []) = (Status (fst (Run env r task)) = StatusSkipped))"
proof (cases "fst (fst (CanRun env r task))")
  case True
  then show ?thesis
    by (simp add: Run_eligible determineStatus_def initialResult_def Let_def split: option.splits)
next
  case False
  then show ?thesis
    using CanRun_reason_nonempty [of env r task]
    by (simp add: Run_skipped initialResult_def)
qed

lemma truncateOutput_partial_out: "truncateOutput ''partial out'' 0 0 = ''partial out''"
  by code_simp

lemma truncateOutput_partial_err: "truncateOutput ''partial err'' 0 0 = ''partial err''"
  by code_simp

lemma Run_slowTask:
  "Run exampleEnv (NewRunner examplePlatform) slowTask =
     (\<lparr>Name_r = ''Slow'', Command_r = ''sleep 60'', Category_r = ''system'',
       Status = StatusFailed, Output = ''partial out'', Error = ''Command timed out after 30s'',
       Duration = 30000000000, SkipReason = []\<rparr>, [Spawned ''sleep 60''])"
  by (simp add: Run_def CanRun_def slowTask_def exampleTask_def examplePlatform_def NewRunner_def
      initialResult_def exampleEnv_def determineStatus_def DefaultTimeout_def MatchesTags_def
      truncateOutput_partial_out truncateOutput_partial_err)

text \<open>
  Claim C8, as the code has it. When the subprocess of an eligible task hits the deadline,
  the status is \<open>Failed\<close>, the error is the time-out message with the duration of the
  time-out (30 seconds for a runner made by \<^verbatim>\<open>NewRunner\<close>), and the output is the standard
  output captured so far, truncated. The captured standard error is not kept: the message
  replaces it.
\<close>

theorem Run_timeout:
  "fst (fst (CanRun env r task)) \<Longrightarrow>
   deadlineExceeded (sh env (Timeout r) (Command task)) \<Longrightarrow>
     Status (fst (Run env r task)) = StatusFailed
     \<and> Error (fst (Run env r task)) = ''Command timed out after '' @ durationString env (Timeout r)
     \<and> Output (fst (Run env r task)) =
         truncateOutput (stdout (sh env (Timeout r) (Command task))) (MaxLines task) (MaxBytes task)
     \<and> Timeout (NewRunner plat) = 30 * 1000000000"
  by (simp add: Run_eligible determineStatus_def initialResult_def NewRunner_def DefaultTimeout_def)

theorem Run_timeout_witness:
  "fst (fst (CanRun exampleEnv (NewRunner examplePlatform) slowTask))
   \<and> deadlineExceeded (sh exampleEnv (Timeout (NewRunner examplePlatform)) (Command slowTask))
   \<and> Status (fst (Run exampleEnv (NewRunner examplePlatform) slowTask)) = StatusFailed
   \<and> Error (fst (Run exampleEnv (NewRunner examplePlatform) slowTask)) = ''Command timed out after 30s''
   \<and> Output (fst (Run exampleEnv (NewRunner examplePlatform) slowTask)) = ''partial out''"
proof -
  have h1: "fst (fst (CanRun exampleEnv (NewRunner examplePlatform) slowTask))"
    by (simp add: CanRun_def slowTask_def exampleTask_def examplePlatform_def NewRunner_def
        MatchesTags_def)
  have h2: "deadlineExceeded (sh exampleEnv (Timeout (NewRunner examplePlatform)) (Command slowTask))"
    by (simp add: exampleEnv_def)
  show ?thesis
    using h1 h2 Run_timeout [OF h1 h2, of examplePlatform]
    by (simp add: exampleEnv_def NewRunner_def DefaultTimeout_def slowTask_def exampleTask_def
        truncateOutput_partial_out)
qed

text \<open>
  Claim C8 as stated fails: the subprocess wrote \<open>partial err\<close> to its standard error before
  the deadline, and the result holds it nowhere.
\<close>

theorem Run_timeout_stderr_counterexample:
  "deadlineExceeded (sh exampleEnv (Timeout (NewRunner examplePlatform)) (Command slowTask))
   \<and> truncateOutput (stderr (sh exampleEnv (Timeout (NewRunner examplePlatform)) (Command slowTask)))
       (MaxLines slowTask) (MaxBytes slowTask) = ''partial err''
   \<and> Error (fst (Run exampleEnv (NewRunner examplePlatform) slowTask)) = ''Command timed out after 30s''
   \<and> Output (fst (Run exampleEnv (NewRunner examplePlatform) slowTask)) = ''partial out''
   \<and> \<not> Contains (Error (fst (Run exampleEnv (NewRunner examplePlatform) slowTask))) ''partial err''
   \<and> \<not> Contains (Output (fst (Run exampleEnv (NewRunner examplePlatform) slowTask))) ''partial err''"
proof -
  have c1: "\<not> Contains ''Command timed out after 30s'' ''partial err''"
    unfolding Contains_def by code_simp
  have c2: "\<not> Contains ''partial out'' ''partial err''"
    unfolding Contains_def by code_simp
  show ?thesis
    using c1 c2
    by (simp add: Run_slowTask)
       (simp add: exampleEnv_def slowTask_def exampleTask_def truncateOutput_partial_err)
qed

section \<open>The manifest loader: proofs\<close>

lemma LoadAll_walk_acc:
  "LoadAll_walk env l es acc =
     (acc @ fst (LoadAll_walk env l es []), snd (LoadAll_walk env l es []))"
proof (induction es arbitrary: acc)
  case Nil
  then show ?case by simp
next
  case (Cons e es)
  show ?case
    using Cons.IH [of "acc @ [x]" for x] Cons.IH [of "[x]" for x] Cons.IH [of acc]
    by (auto split: option.splits sum.splits)
qed

lemma LoadAll_walk_ok:
  "snd (LoadAll_walk env l es []) = None \<Longrightarrow>
   fst (LoadAll_walk env l es []) =
     filter (matchesPlatform env l)
       (List.map_filter
          (\<lambda>e. if IsDir e \<or> \<not> HasSuffix (path e) ''.yaml'' then None
               else (case loadProfile env l (path e) of Inl err \<Rightarrow> None | Inr profile \<Rightarrow> Some profile))
          es)"
proof (induction es)
  case Nil
  then show ?case by (simp add: List.map_filter_simps)
next
  case (Cons e es)
  show ?case
    using Cons.prems Cons.IH LoadAll_walk_acc [of env l es "[x]" for x]
    by (auto simp: List.map_filter_simps split: option.splits sum.splits if_splits)
qed

text \<open>
  Claim C7, as the code has it. A profile applies exactly when it declares no platform, or
  its platform equals the distribution identifier of the descriptor when both are
  lower-cased, or its lower-cased platform occurs anywhere in the lower-cased distribution
  identifier (as a substring, not only as a prefix), or its lower-cased platform is
  \<open>linux\<close> and the operating system of the descriptor is \<open>linux\<close>. When the walk ends
  without an error, the profiles loaded are the sources that apply, in the order of the
  walk, and the tasks loaded are theirs: no task of another source is loaded.
\<close>

theorem matchesPlatform_applicability:
  "matchesPlatform env l profile =
     (Platform_p profile = []
      \<or> ToLower env (Platform_p profile) = ToLower env (DistroID (platform l))
      \<or> Contains (ToLower env (DistroID (platform l))) (ToLower env (Platform_p profile))
      \<or> (ToLower env (Platform_p profile) = ''linux'' \<and> OS (platform l) = ''linux''))
   \<and> (snd (LoadAll env l) = None \<longrightarrow>
        fst (LoadAll env l) = filter (matchesPlatform env l) (parsedProfiles env l)
        \<and> GetAllTasks env l =
            Inr (concat (map Tasks (filter (matchesPlatform env l) (parsedProfiles env l)))))"
proof -
  have a: "matchesPlatform env l profile =
     (Platform_p profile = []
      \<or> ToLower env (Platform_p profile) = ToLower env (DistroID (platform l))
      \<or> Contains (ToLower env (DistroID (platform l))) (ToLower env (Platform_p profile))
      \<or> (ToLower env (Platform_p profile) = ''linux'' \<and> OS (platform l) = ''linux''))"
    by (simp add: matchesPlatform_def Let_def)
  have b: "fst (LoadAll env l) = filter (matchesPlatform env l) (parsedProfiles env l)"
    if "snd (LoadAll env l) = None"
    using that LoadAll_walk_ok [of env l "walk (fs l)"]
    by (simp add: LoadAll_def parsedProfiles_def)
  have c: "GetAllTasks env l =
            Inr (concat (map Tasks (filter (matchesPlatform env l) (parsedProfiles env l))))"
    if "snd (LoadAll env l) = None"
    using that b [OF that]
    by (cases "LoadAll env l") (simp add: GetAllTasks_def FilterTasks_def)
  show ?thesis using a b c by blast
qed

lemma ToLower_SUSE: "ToLower exampleEnv ''SUSE'' = ''suse''"
  unfolding ToLower_def by code_simp

lemma ToLower_opensuse: "ToLower exampleEnv ''opensuse_linux'' = ''opensuse_linux''"
  unfolding ToLower_def by code_simp

lemma category_of_suse_yaml: "TrimSuffix (Base ''probes/suse.yaml'') ''.yaml'' = ''suse''"
  by code_simp

lemma HasSuffix_suse_yaml: "HasSuffix ''probes/suse.yaml'' ''.yaml''"
  by code_simp

lemma HasSuffix_probes: "\<not> HasSuffix ''probes'' ''.yaml''"
  by code_simp

lemma loadProfile_example:
  "loadProfile exampleEnv exampleLoader ''probes/suse.yaml'' = Inr loadedSuseProfile"
  unfolding loadedSuseProfile_def
  by (simp add: loadProfile_def exampleLoader_def exampleFS_def exampleEnv_def suseProfile_def
      category_of_suse_yaml Let_def)

lemma matchesPlatform_example: "matchesPlatform exampleEnv exampleLoader loadedSuseProfile"
proof -
  have "Contains ''opensuse_linux'' ''suse''"
    unfolding Contains_def by code_simp
  then show ?thesis
    by (simp add: matchesPlatform_def loadedSuseProfile_def exampleLoader_def examplePlatform_def
        ToLower_SUSE ToLower_opensuse Let_def)
qed

lemma LoadAll_example: "LoadAll exampleEnv exampleLoader = ([loadedSuseProfile], None)"
proof -
  have w: "walk (fs exampleLoader) =
     [\<lparr>path = ''probes'', IsDir = True, walkErr = None\<rparr>,
      \<lparr>path = ''probes/suse.yaml'', IsDir = False, walkErr = None\<rparr>]"
    by (simp add: exampleLoader_def exampleFS_def)
  show ?thesis
    unfolding LoadAll_def w
    by (simp add: HasSuffix_suse_yaml loadProfile_example matchesPlatform_example)
qed

theorem matchesPlatform_applicability_witness:
  "snd (LoadAll exampleEnv exampleLoader) = None
   \<and> fst (LoadAll exampleEnv exampleLoader) = [loadedSuseProfile]
   \<and> filter (matchesPlatform exampleEnv exampleLoader) (parsedProfiles exampleEnv exampleLoader)
       = [loadedSuseProfile]
   \<and> GetAllTasks exampleEnv exampleLoader = Inr (Tasks loadedSuseProfile)"
proof -
  have h: "snd (LoadAll exampleEnv exampleLoader) = None"
    by (simp add: LoadAll_example)
  have t: "fst (LoadAll exampleEnv exampleLoader) =
        filter (matchesPlatform exampleEnv exampleLoader) (parsedProfiles exampleEnv exampleLoader)
      \<and> GetAllTasks exampleEnv exampleLoader =
        Inr (concat (map Tasks (filter (matchesPlatform exampleEnv exampleLoader)
                                  (parsedProfiles exampleEnv exampleLoader))))"
    using matchesPlatform_applicability [of exampleEnv exampleLoader loadedSuseProfile] h
    by blast
  have f: "filter (matchesPlatform exampleEnv exampleLoader) (parsedProfiles exampleEnv exampleLoader)
       = [loadedSuseProfile]"
    using t by (simp add: LoadAll_example)
  show ?thesis
    using h t f by (simp add: LoadAll_example)
qed

text \<open>
  Claim C7 as stated fails where it says prefix: the platform \<open>SUSE\<close> is not empty, is not
  the identifier \<open>opensuse_linux\<close> in any case, is no prefix of it and is not \<open>linux\<close>, and
  the profile is loaded all the same.
\<close>

theorem matchesPlatform_prefix_counterexample:
  "Platform_p loadedSuseProfile \<noteq> []
   \<and> ToLower exampleEnv (Platform_p loadedSuseProfile)
       \<noteq> ToLower exampleEnv (DistroID (platform exampleLoader))
   \<and> \<not> prefix (ToLower exampleEnv (Platform_p loadedSuseProfile))
              (ToLower exampleEnv (DistroID (platform exampleLoader)))
   \<and> ToLower exampleEnv (Platform_p loadedSuseProfile) \<noteq> ''linux''
   \<and> matchesPlatform exampleEnv exampleLoader loadedSuseProfile
   \<and> LoadAll exampleEnv exampleLoader = ([loadedSuseProfile], None)"
proof -
  have p: "Platform_p loadedSuseProfile = ''SUSE''"
    by (simp add: loadedSuseProfile_def)
  have d: "DistroID (platform exampleLoader) = ''opensuse_linux''"
    by (simp add: exampleLoader_def examplePlatform_def)
  show ?thesis
    unfolding p d ToLower_SUSE ToLower_opensuse
    using matchesPlatform_example LoadAll_example by simp
qed

section \<open>The report: proofs\<close>

lemma groupByCategory_loop_inv:
  "dom m = set order \<Longrightarrow> distinct order \<Longrightarrow>
   groupByCategory_loop env rs m order = (m', order') \<Longrightarrow>
     dom m' = set order' \<and> distinct order'
     \<and> set order' = set order \<union> categoryLabel env ` set rs
     \<and> (\<forall>n. lookupResults m' n = lookupResults m n @ filter (\<lambda>x. categoryLabel env x = n) rs)"
proof (induction rs arbitrary: m order)
  case Nil
  then show ?case by simp
next
  case (Cons x rs)
  let ?c = "categoryLabel env x"
  let ?order = "if m ?c = None then order @ [?c] else order"
  let ?m = "m(?c \<mapsto> lookupResults m ?c @ [x])"
  have step: "groupByCategory_loop env rs ?m ?order = (m', order')"
    using Cons.prems(3) by (simp add: Let_def)
  have d: "dom ?m = set ?order"
    using Cons.prems(1) by auto
  have di: "distinct ?order"
    using Cons.prems(1,2) by auto
  have ih: "dom m' = set order' \<and> distinct order'
     \<and> set order' = set ?order \<union> categoryLabel env ` set rs
     \<and> (\<forall>n. lookupResults m' n = lookupResults ?m n @ filter (\<lambda>x. categoryLabel env x = n) rs)"
    using Cons.IH [OF d di step] .
  have s: "set ?order = insert ?c (set order)"
    using Cons.prems(1) by auto
  have l: "lookupResults ?m n = lookupResults m n @ filter (\<lambda>y. categoryLabel env y = n) [x]" for n
    by (simp add: lookupResults_def)
  show ?case
    using ih s l by auto
qed

lemma groupByCategory_eq:
  "groupByCategory env r =
     map (\<lambda>n. \<lparr>name = n, results = filter (\<lambda>x. categoryLabel env x = n) (Results r)\<rparr>)
       (sort (remdups (map (categoryLabel env) (Results r))))"
proof -
  obtain m order where lp: "groupByCategory_loop env (Results r) Map.empty [] = (m, order)"
    by (cases "groupByCategory_loop env (Results r) Map.empty []")
  have inv: "dom m = set order \<and> distinct order
     \<and> set order = set [] \<union> categoryLabel env ` set (Results r)
     \<and> (\<forall>n. lookupResults m n = lookupResults Map.empty n @ filter (\<lambda>x. categoryLabel env x = n) (Results r))"
    by (rule groupByCategory_loop_inv [OF _ _ lp]) simp_all
  have "sort order = sort (remdups (map (categoryLabel env) (Results r)))"
    by (rule sorted_distinct_set_unique) (use inv in auto)
  moreover have "lookupResults m n = filter (\<lambda>x. categoryLabel env x = n) (Results r)" for n
    using inv by (simp add: lookupResults_def)
  ultimately show ?thesis
    by (simp add: groupByCategory_def lp)
qed

lemma Title_General: "Title env ''General'' = ''General''"
  unfolding Title_def by code_simp

lemma Title_network: "Title env ''network'' = ''Network''"
  unfolding Title_def by code_simp

lemma Title_Network: "Title env ''Network'' = ''Network''"
  unfolding Title_def by code_simp

lemma Title_NETWORK: "Title env ''NETWORK'' = ''NETWORK''"
  unfolding Title_def by code_simp

lemma upperASCII_upper: "isLowerASCII c \<Longrightarrow> isUpperASCII (upperASCII c)"
proof -
  assume a: "isLowerASCII c"
  define n :: nat where "n = of_char c"
  have b: "97 \<le> n \<and> n \<le> 122"
    using a by (simp add: isLowerASCII_def less_eq_char_def n_def)
  have "n - 32 < 256"
    using b by arith
  then have m: "(n - 32) mod 256 = n - 32"
    by (rule mod_less)
  have r: "65 \<le> n - 32 \<and> n - 32 \<le> 90"
    using b by arith
  have "upperASCII c = char_of (n - 32)"
    using a by (simp add: upperASCII_def n_def)
  then show ?thesis
    using m r by (simp add: isUpperASCII_def less_eq_char_def)
qed

lemma lower_not_separator: "isLowerASCII c \<Longrightarrow> \<not> isSeparatorASCII c"
  by (simp add: isSeparatorASCII_def)

lemma upper_not_separator: "isUpperASCII c \<Longrightarrow> \<not> isSeparatorASCII c"
  by (simp add: isSeparatorASCII_def)

lemma isSeparatorASCII_upperASCII: "isSeparatorASCII (upperASCII c) = isSeparatorASCII c"
proof (cases "isLowerASCII c")
  case True
  then show ?thesis
    using upperASCII_upper [OF True] lower_not_separator upper_not_separator by blast
next
  case False
  then show ?thesis by (simp add: upperASCII_def)
qed

lemma isSeparatorASCII_cong:
  "upperASCII a = upperASCII b \<Longrightarrow> isSeparatorASCII a = isSeparatorASCII b"
  using isSeparatorASCII_upperASCII [of a] isSeparatorASCII_upperASCII [of b] by simp

lemma Title_loop_length: "length (Title_loop p s) = length s"
  by (induction s arbitrary: p) simp_all

lemma Title_loop_nth:
  "i < length s \<Longrightarrow>
   Title_loop p s ! i =
     (if isSeparatorASCII (if i = 0 then p else s ! (i - 1)) then upperASCII (s ! i) else s ! i)"
proof (induction s arbitrary: p i)
  case Nil
  then show ?case by simp
next
  case (Cons c s)
  show ?case
  proof (cases i)
    case 0
    then show ?thesis by simp
  next
    case (Suc j)
    then have "j < length s" using Cons.prems by simp
    then show ?thesis
      using Cons.IH [of j c] Suc by (cases j) simp_all
  qed
qed

lemma space_separator: "isSeparatorASCII (CHR '' '')"
  by code_simp

lemma Title_ASCII_length: "isASCII c \<Longrightarrow> length (Title env c) = length c"
  by (simp add: Title_def Title_loop_length)

lemma Title_ASCII_nth:
  "isASCII c \<Longrightarrow> i < length c \<Longrightarrow>
   Title env c ! i =
     (if i = 0 \<or> isSeparatorASCII (c ! (i - 1)) then upperASCII (c ! i) else c ! i)"
  using space_separator by (simp add: Title_def Title_loop_nth)

lemma Title_nth_separator:
  "isASCII c \<Longrightarrow> i < length c \<Longrightarrow> isSeparatorASCII (Title env c ! i) = isSeparatorASCII (c ! i)"
  by (simp add: Title_ASCII_nth isSeparatorASCII_upperASCII)

lemma Title_ASCII_eq_iff:
  assumes "isASCII c1" and "isASCII c2"
  shows "(Title env c1 = Title env c2) =
     (length c1 = length c2
      \<and> (\<forall>i < length c1.
            if i = 0 \<or> isSeparatorASCII (c1 ! (i - 1))
            then upperASCII (c1 ! i) = upperASCII (c2 ! i)
            else c1 ! i = c2 ! i))"
proof
  assume e: "Title env c1 = Title env c2"
  have l: "length c1 = length c2"
    using e Title_ASCII_length [OF assms(1), of env] Title_ASCII_length [OF assms(2), of env]
    by simp
  have "if i = 0 \<or> isSeparatorASCII (c1 ! (i - 1))
            then upperASCII (c1 ! i) = upperASCII (c2 ! i)
            else c1 ! i = c2 ! i" if i: "i < length c1" for i
  proof -
    have sep: "isSeparatorASCII (c1 ! (i - 1)) = isSeparatorASCII (c2 ! (i - 1))"
      using Title_nth_separator [OF assms(1), of "i - 1" env]
        Title_nth_separator [OF assms(2), of "i - 1" env] e l i
      by simp
    have "Title env c1 ! i = Title env c2 ! i"
      using e by simp
    then show ?thesis
      using Title_ASCII_nth [OF assms(1) i, of env] Title_ASCII_nth [OF assms(2), of i env]
        sep l i
      by (auto split: if_splits)
  qed
  then show "length c1 = length c2
      \<and> (\<forall>i < length c1.
            if i = 0 \<or> isSeparatorASCII (c1 ! (i - 1))
            then upperASCII (c1 ! i) = upperASCII (c2 ! i)
            else c1 ! i = c2 ! i)"
    using l by blast
next
  assume r: "length c1 = length c2
      \<and> (\<forall>i < length c1.
            if i = 0 \<or> isSeparatorASCII (c1 ! (i - 1))
            then upperASCII (c1 ! i) = upperASCII (c2 ! i)
            else c1 ! i = c2 ! i)"
  then have l: "length c1 = length c2" by blast
  have pt: "if i = 0 \<or> isSeparatorASCII (c1 ! (i - 1))
            then upperASCII (c1 ! i) = upperASCII (c2 ! i)
            else c1 ! i = c2 ! i" if "i < length c1" for i
    using r that by blast
  have sep: "isSeparatorASCII (c1 ! j) = isSeparatorASCII (c2 ! j)" if "j < length c1" for j
    using pt [OF that] isSeparatorASCII_cong [of "c1 ! j" "c2 ! j"]
    by (auto split: if_splits)
  have "Title env c1 ! i = Title env c2 ! i" if i: "i < length c1" for i
  proof (cases i)
    case 0
    then show ?thesis
      using pt [OF i] Title_ASCII_nth [OF assms(1) i, of env]
        Title_ASCII_nth [OF assms(2), of i env] l i
      by simp
  next
    case (Suc j)
    then have "j < length c1" using i by simp
    then have s: "isSeparatorASCII (c1 ! (i - 1)) = isSeparatorASCII (c2 ! (i - 1))"
      using sep [of j] Suc by simp
    show ?thesis
      using pt [OF i] s Suc Title_ASCII_nth [OF assms(1) i, of env]
        Title_ASCII_nth [OF assms(2), of i env] l i
      by (auto split: if_splits)
  qed
  then show "Title env c1 = Title env c2"
    using l Title_ASCII_length [OF assms(1), of env] Title_ASCII_length [OF assms(2), of env]
    by (simp add: list_eq_iff_nth_eq)
qed

lemma isASCII_disk_usage: "isASCII ''disk usage''"
  by code_simp

lemma isASCII_network: "isASCII ''network'' \<and> isASCII ''Network''"
  by code_simp

text \<open>
  Claim C2, as the code has it. The sections of the Full report are the labels of the
  results, each once, in the bytewise order of strings; the section of a label holds the
  results with that label, in their order. The label of a result is \<open>General\<close> when its
  category is empty and \<^verbatim>\<open>strings.Title\<close> of its category otherwise. For an ASCII category
  the label has the bytes of the category, except that a byte at the start of a word (the
  first byte, or one after a byte that is neither a letter, a digit nor an underscore) is
  put in upper case when it is a lower-case letter; every other byte is kept. So two ASCII
  categories share a section exactly when they have the same length and agree at every
  position, up to the case of a letter at the start of a word: \<open>network\<close> and \<open>Network\<close>
  share the label \<open>Network\<close>, and \<open>NETWORK\<close> keeps a label of its own.
\<close>

theorem groupByCategory_sections:
  "groupByCategory env r =
     map (\<lambda>n. \<lparr>name = n, results = filter (\<lambda>x. categoryLabel env x = n) (Results r)\<rparr>)
       (sort (remdups (map (categoryLabel env) (Results r))))
   \<and> sorted (map name (groupByCategory env r))
   \<and> distinct (map name (groupByCategory env r))
   \<and> categoryLabel env x = (if Category_r x = [] then ''General'' else Title env (Category_r x))
   \<and> (isASCII c \<longrightarrow>
        length (Title env c) = length c
        \<and> (\<forall>i < length c.
              Title env c ! i =
                (if i = 0 \<or> isSeparatorASCII (c ! (i - 1)) then upperASCII (c ! i) else c ! i)))
   \<and> (isASCII c1 \<and> isASCII c2 \<longrightarrow>
        (Title env c1 = Title env c2) =
          (length c1 = length c2
           \<and> (\<forall>i < length c1.
                 if i = 0 \<or> isSeparatorASCII (c1 ! (i - 1))
                 then upperASCII (c1 ! i) = upperASCII (c2 ! i)
                 else c1 ! i = c2 ! i)))
   \<and> upperASCII ch =
       (if CHR ''a'' \<le> ch \<and> ch \<le> CHR ''z'' then char_of ((of_char ch :: nat) - 32) else ch)
   \<and> isSeparatorASCII ch =
       (\<not> ((CHR ''0'' \<le> ch \<and> ch \<le> CHR ''9'') \<or> (CHR ''a'' \<le> ch \<and> ch \<le> CHR ''z'')
            \<or> (CHR ''A'' \<le> ch \<and> ch \<le> CHR ''Z'') \<or> ch = CHR ''_''))
   \<and> Title env ''network'' = ''Network'' \<and> Title env ''Network'' = ''Network''
   \<and> Title env ''NETWORK'' = ''NETWORK''"
proof -
  have n: "map name (groupByCategory env r) = sort (remdups (map (categoryLabel env) (Results r)))"
    by (simp add: groupByCategory_eq comp_def)
  have c: "categoryLabel env x = (if Category_r x = [] then ''General'' else Title env (Category_r x))"
    by (simp add: categoryLabel_def Title_General Let_def)
  have s: "sorted (map name (groupByCategory env r))"
    unfolding n by simp
  have d: "distinct (map name (groupByCategory env r))"
    unfolding n by simp
  have t: "isASCII c \<longrightarrow>
        length (Title env c) = length c
        \<and> (\<forall>i < length c.
              Title env c ! i =
                (if i = 0 \<or> isSeparatorASCII (c ! (i - 1)) then upperASCII (c ! i) else c ! i))"
    using Title_ASCII_length [of c env] Title_ASCII_nth [of c _ env] by blast
  have f: "isASCII c1 \<and> isASCII c2 \<longrightarrow>
        (Title env c1 = Title env c2) =
          (length c1 = length c2
           \<and> (\<forall>i < length c1.
                 if i = 0 \<or> isSeparatorASCII (c1 ! (i - 1))
                 then upperASCII (c1 ! i) = upperASCII (c2 ! i)
                 else c1 ! i = c2 ! i))"
    using Title_ASCII_eq_iff [of c1 c2 env] by blast
  have u: "upperASCII ch =
       (if CHR ''a'' \<le> ch \<and> ch \<le> CHR ''z'' then char_of ((of_char ch :: nat) - 32) else ch)"
    by (simp add: upperASCII_def isLowerASCII_def)
  have p: "isSeparatorASCII ch =
       (\<not> ((CHR ''0'' \<le> ch \<and> ch \<le> CHR ''9'') \<or> (CHR ''a'' \<le> ch \<and> ch \<le> CHR ''z'')
            \<or> (CHR ''A'' \<le> ch \<and> ch \<le> CHR ''Z'') \<or> ch = CHR ''_''))"
    by (simp add: isSeparatorASCII_def isDigitASCII_def isLowerASCII_def isUpperASCII_def)
  show ?thesis
    using groupByCategory_eq [of env r] c s d t f u p Title_network [of env] Title_Network [of env]
      Title_NETWORK [of env]
    by blast
qed

theorem groupByCategory_sections_witness:
  "isASCII ''disk usage'' \<and> isASCII ''network'' \<and> isASCII ''Network''
   \<and> length (Title exampleEnv ''disk usage'') = length ''disk usage''
   \<and> (Title exampleEnv ''network'' = Title exampleEnv ''Network'')
   \<and> sorted (map name (groupByCategory exampleEnv networkReport))"
proof -
  have h: "isASCII ''disk usage''"
    by (rule isASCII_disk_usage)
  have g: "isASCII ''network'' \<and> isASCII ''Network''"
    by (rule isASCII_network)
  have a: "length (Title exampleEnv ''disk usage'') = length ''disk usage''"
    using h groupByCategory_sections [of exampleEnv networkReport
        "mkResult ''a'' ''network'' StatusSuccess ''up''" "''disk usage''" "''network''"
        "''Network''" "CHR ''a''"]
    by blast
  have b: "Title exampleEnv ''network'' = Title exampleEnv ''Network''"
    using groupByCategory_sections [of exampleEnv networkReport
        "mkResult ''a'' ''network'' StatusSuccess ''up''" "''disk usage''" "''network''"
        "''Network''" "CHR ''a''"]
    by simp
  have s: "sorted (map name (groupByCategory exampleEnv networkReport))"
    using groupByCategory_sections [of exampleEnv networkReport
        "mkResult ''a'' ''network'' StatusSuccess ''up''" "''disk usage''" "''network''"
        "''Network''" "CHR ''a''"]
    by blast
  show ?thesis
    using h g a b s by blast
qed

lemma sort_network: "sort [''Network'', ''NETWORK''] = [''NETWORK'', ''Network'']"
  by code_simp

text \<open>
  Claim C2 as stated fails: three results whose categories differ only in letter case are
  rendered in two sections, not one.
\<close>

theorem groupByCategory_case_counterexample:
  "map Category_r (Results networkReport) = [''network'', ''Network'', ''NETWORK'']
   \<and> map name (groupByCategory exampleEnv networkReport) = [''NETWORK'', ''Network'']
   \<and> groupByCategory exampleEnv networkReport =
       [\<lparr>name = ''NETWORK'', results = [mkResult ''c'' ''NETWORK'' StatusSuccess ''up'']\<rparr>,
        \<lparr>name = ''Network'', results = [mkResult ''a'' ''network'' StatusSuccess ''up'',
                                       mkResult ''b'' ''Network'' StatusSuccess ''up'']\<rparr>]"
  by (simp add: groupByCategory_def networkReport_def mkResult_def categoryLabel_def
      Title_network Title_Network Title_NETWORK lookupResults_def sort_network Let_def)

lemma collectErrors_filter:
  "collectErrors rs errors skipped =
     (errors @ filter (\<lambda>x. Status x = StatusFailed) rs,
      skipped @ filter (\<lambda>x. Status x = StatusSkipped) rs)"
  by (induction rs arbitrary: errors skipped) (auto split: Status.splits)

lemma foldl_append_concat: "foldl (\<lambda>b x. b @ f x) b xs = b @ concat (map f xs)"
  by (induction xs arbitrary: b) auto

lemma writeErrorsSection_eq:
  "writeErrorsSection r b =
     (if filter (\<lambda>x. Status x = StatusFailed) (Results r) = []
         \<and> filter (\<lambda>x. Status x = StatusSkipped) (Results r) = []
      then b
      else b @ ''\<newline>## Errors & Skipped\<newline>\<newline>''
             @ concat (map failedLine (filter (\<lambda>x. Status x = StatusFailed) (Results r)))
             @ concat (map skippedLine (filter (\<lambda>x. Status x = StatusSkipped) (Results r))))"
  by (simp add: writeErrorsSection_def collectErrors_filter foldl_append_concat Let_def)

text \<open>
  Claim C10. When no result is \<open>Failed\<close> and none is \<open>Skipped\<close>, \<^verbatim>\<open>writeErrorsSection\<close>
  writes nothing, neither the heading nor a list; otherwise it writes the heading, then for
  every \<open>Failed\<close> result a line with its name and its error (\<open>Unknown error\<close> when it has
  none), then for every \<open>Skipped\<close> result a line with its name and its skip reason
  (\<open>Unknown reason\<close> when it has none), each group in the order of the results. The content
  of the Full report is the category sections followed by what \<^verbatim>\<open>writeErrorsSection\<close>
  writes.
\<close>

theorem writeErrorsSection_omitted_or_listed:
  "writeErrorsSection r b =
     (if filter (\<lambda>x. Status x = StatusFailed) (Results r) = []
         \<and> filter (\<lambda>x. Status x = StatusSkipped) (Results r) = []
      then b
      else b @ ''\<newline>## Errors & Skipped\<newline>\<newline>''
             @ concat (map (\<lambda>x. ''- **'' @ Name_r x @ ''**: Failed (''
                                 @ (if Error x = [] then ''Unknown error'' else Error x)
                                 @ '')\<newline>'')
                         (filter (\<lambda>x. Status x = StatusFailed) (Results r)))
             @ concat (map (\<lambda>x. ''- **'' @ Name_r x @ ''**: Skipped (''
                                 @ (if SkipReason x = [] then ''Unknown reason'' else SkipReason x)
                                 @ '')\<newline>'')
                         (filter (\<lambda>x. Status x = StatusSkipped) (Results r))))
   \<and> generateContent env r =
       foldl writeCategory [] (groupByCategory env r) @ writeErrorsSection r []"
proof -
  have e: "writeErrorsSection r c = c @ writeErrorsSection r []" for c
    by (simp add: writeErrorsSection_eq)
  have g: "generateContent env r =
       foldl writeCategory [] (groupByCategory env r) @ writeErrorsSection r []"
    unfolding generateContent_def Let_def by (rule e)
  have fl: "failedLine = (\<lambda>x. ''- **'' @ Name_r x @ ''**: Failed (''
                                 @ (if Error x = [] then ''Unknown error'' else Error x)
                                 @ '')\<newline>'')"
    by (rule ext) (simp add: failedLine_def Let_def)
  have sl: "skippedLine = (\<lambda>x. ''- **'' @ Name_r x @ ''**: Skipped (''
                                 @ (if SkipReason x = [] then ''Unknown reason'' else SkipReason x)
                                 @ '')\<newline>'')"
    by (rule ext) (simp add: skippedLine_def Let_def)
  show ?thesis
    using writeErrorsSection_eq [of r b] g unfolding fl sl by blast
qed

lemma length_showNat_pos: "0 < length (showNat n)"
  by (subst showNat.simps) simp

lemma showInt_0: "showInt 0 = ''0''"
  by code_simp

lemma reportHeader_length: "68 \<le> length (reportHeader env r n)"
proof -
  have "showInt n \<noteq> []"
    using length_showNat_pos by (simp add: showInt_def)
  then obtain c cs where "showInt n = c # cs"
    by (cases "showInt n") auto
  then show ?thesis
    by (simp add: reportHeader_def Let_def)
qed

lemma Generate_fallback:
  "tokenizer env = None \<Longrightarrow>
   Generate env r =
     (generateWithTokenCount env r (int (length (generateContent env r)) div 4),
      int (length (generateContent env r)) div 4, None)"
  by (simp add: Generate_def Let_def)

lemma Generate_fallback_undercounts:
  "tokenizer env = None \<Longrightarrow>
   fst (snd (Generate env r)) + 17 \<le> int (length (fst (Generate env r))) div 4"
proof -
  assume a: "tokenizer env = None"
  let ?n = "int (length (generateContent env r)) div 4"
  have "68 \<le> length (reportHeader env r ?n)"
    by (rule reportHeader_length)
  then show ?thesis
    by (simp add: Generate_fallback [OF a] generateWithTokenCount_def)
qed

lemma GenerateMinified_fallback:
  "tokenizer env = None \<Longrightarrow>
   snd (GenerateMinified env r) = (int (length (fst (GenerateMinified env r))) div 4, None)"
  by (simp add: GenerateMinified_def Let_def)

lemma GenerateIntro_fallback:
  "tokenizer env = None \<Longrightarrow>
   snd (GenerateIntro env r) = (int (length (fst (GenerateIntro env r))) div 4, None)"
  by (simp add: GenerateIntro_def Let_def)

lemma Generate_no_error: "snd (snd (Generate env r)) = None"
  by (simp add: Generate_def Let_def split: option.splits)

text \<open>
  Claim C9, at the Full report. Without a tokenizer \<^verbatim>\<open>Generate\<close> returns no error, and the
  count it returns is a quarter of the length of the content without the header, while the
  text it returns has the header (lemma \<open>Generate_fallback_undercounts\<close>: the count is at
  least 17 below a quarter of the length of the text). For a report with no result the text
  has 109 bytes and the count is 0, not 27. \<^verbatim>\<open>GenerateMinified\<close> and \<^verbatim>\<open>GenerateIntro\<close>
  do count the text they return (lemmas \<open>GenerateMinified_fallback\<close>, \<open>GenerateIntro_fallback\<close>).
\<close>

theorem Generate_fallback_defect:
  "tokenizer exampleEnv = None
   \<and> Generate exampleEnv emptyReport =
       (''# SysProbe Diagnostic Report\<newline>\<newline>Generated: 2026-01-01T00:00:00Z\<newline>Platform: opensuse_linux (sway)\<newline>Token Count: 0\<newline>'',
        0, None)
   \<and> int (length (fst (Generate exampleEnv emptyReport))) div 4 = 27"
  by (simp add: Generate_def generateWithTokenCount_def generateContent_def reportHeader_def
      groupByCategory_def writeErrorsSection_def emptyReport_def exampleEnv_def examplePlatform_def
      showInt_0 Let_def)

section \<open>The scheduler: proofs\<close>

lemma initSched_inv: "schedInv run workerCount tasks (initSched tasks)"
  by (simp add: schedInv_def initSched_def)

lemma perform_inv:
  assumes "schedInv run workerCount tasks s" and "perform run workerCount tasks a s = Some s'"
  shows "schedInv run workerCount tasks s'"
proof (cases a)
  case Feed
  then show ?thesis
    using assms by (auto simp: schedInv_def less_Suc_eq split: if_splits)
next
  case Close
  then show ?thesis
    using assms by (auto simp: schedInv_def split: if_splits)
next
  case Take
  then show ?thesis
    using assms by (auto simp: schedInv_def split: if_splits list.splits)
next
  case (Finish idx)
  then have en: "idx \<in> set (running s)" "idx < length tasks" "idx < length (slots s)"
    and s': "s' = s\<lparr>running := remove1 idx (running s),
                    slots := (slots s)[idx := run (tasks ! idx)]\<rparr>"
    using assms(2) by (auto split: if_splits)
  have i1: "fed s \<le> length tasks" and i2: "closed s \<longrightarrow> fed s = length tasks"
    and i3: "length (slots s) = length tasks"
    and i4: "length (running s) + exited s \<le> numWorkers workerCount"
    and i5: "0 < exited s \<longrightarrow> chan s = [] \<and> closed s"
    and i6: "\<forall>i \<in> set (chan s) \<union> set (running s). i < fed s"
    and i7: "\<forall>i < fed s. i \<in> set (chan s) \<or> i \<in> set (running s) \<or> slots s ! i = run (tasks ! i)"
    using assms(1) unfolding schedInv_def by blast+
  have len: "length (remove1 idx (running s)) \<le> length (running s)"
    by (simp add: length_remove1)
  have sub: "set (remove1 idx (running s)) \<subseteq> set (running s)"
    by (rule set_remove1_subset)
  have j4: "length (running s') + exited s' \<le> numWorkers workerCount"
    using i4 len by (simp add: s')
  have j6: "\<forall>i \<in> set (chan s') \<union> set (running s'). i < fed s'"
    using i6 sub by (auto simp: s')
  have j7: "\<forall>i < fed s'. i \<in> set (chan s') \<or> i \<in> set (running s')
              \<or> slots s' ! i = run (tasks ! i)"
  proof (intro allI impI)
    fix i assume "i < fed s'"
    then have lt: "i < fed s" by (simp add: s')
    show "i \<in> set (chan s') \<or> i \<in> set (running s') \<or> slots s' ! i = run (tasks ! i)"
    proof (cases "i = idx")
      case True
      then show ?thesis using en(3) by (simp add: s')
    next
      case False
      then have "i \<in> set (running s) \<longrightarrow> i \<in> set (remove1 idx (running s))"
        by simp
      then show ?thesis
        using i7 lt False by (auto simp: s')
    qed
  qed
  have j1: "fed s' \<le> length tasks"
    using i1 by (simp add: s')
  have j2: "closed s' \<longrightarrow> fed s' = length tasks"
    using i2 by (simp add: s')
  have j3: "length (slots s') = length tasks"
    using i3 by (simp add: s')
  have j5: "0 < exited s' \<longrightarrow> chan s' = [] \<and> closed s'"
    using i5 by (simp add: s')
  show ?thesis
    unfolding schedInv_def
    using j1 j2 j3 j4 j5 j6 j7 by blast
next
  case Exit
  then have en: "chan s = []" "closed s" "length (running s) + exited s < numWorkers workerCount"
    and s': "s' = s\<lparr>exited := exited s + 1\<rparr>"
    using assms(2) by (auto split: if_splits)
  have i1: "fed s \<le> length tasks" and i2: "closed s \<longrightarrow> fed s = length tasks"
    and i3: "length (slots s) = length tasks"
    and i6: "\<forall>i \<in> set (chan s) \<union> set (running s). i < fed s"
    and i7: "\<forall>i < fed s. i \<in> set (chan s) \<or> i \<in> set (running s) \<or> slots s ! i = run (tasks ! i)"
    using assms(1) unfolding schedInv_def by blast+
  have j1: "fed s' \<le> length tasks"
    using i1 by (simp add: s')
  have j2: "closed s' \<longrightarrow> fed s' = length tasks"
    using i2 by (simp add: s')
  have j3: "length (slots s') = length tasks"
    using i3 by (simp add: s')
  have j4: "length (running s') + exited s' \<le> numWorkers workerCount"
    using en(3) by (simp add: s')
  have j5: "0 < exited s' \<longrightarrow> chan s' = [] \<and> closed s'"
    using en(1,2) by (simp add: s')
  have j6: "\<forall>i \<in> set (chan s') \<union> set (running s'). i < fed s'"
    using i6 by (simp add: s')
  have j7: "\<forall>i < fed s'. i \<in> set (chan s') \<or> i \<in> set (running s')
              \<or> slots s' ! i = run (tasks ! i)"
    using i7 by (simp add: s')
  show ?thesis
    unfolding schedInv_def
    using j1 j2 j3 j4 j5 j6 j7 by blast
qed

lemma execute_inv:
  "schedInv run workerCount tasks s \<Longrightarrow> execute run workerCount tasks sched s = Some s' \<Longrightarrow>
   schedInv run workerCount tasks s'"
proof (induction sched arbitrary: s)
  case Nil
  then show ?case by simp
next
  case (Cons a sched)
  then show ?case
    by (auto split: option.splits dest: perform_inv)
qed

lemma returned_slots:
  assumes "schedInv run workerCount tasks s" and "waitReturns workerCount s"
    and "0 < workerCount"
  shows "slots s = map run tasks"
proof -
  have w: "0 < numWorkers workerCount"
    using assms(3) by (simp add: numWorkers_def)
  have c: "closed s" and e: "exited s = numWorkers workerCount"
    using assms(2) by (simp_all add: waitReturns_def)
  have f: "fed s = length tasks"
    using assms(1) c by (simp add: schedInv_def)
  have ch: "chan s = []"
    using assms(1) e w by (simp add: schedInv_def)
  have ru: "running s = []"
    using assms(1) e by (simp add: schedInv_def)
  have "\<forall>i < length tasks. slots s ! i = run (tasks ! i)"
    using assms(1) f ch ru by (simp add: schedInv_def)
  moreover have "length (slots s) = length tasks"
    using assms(1) by (simp add: schedInv_def)
  ultimately show ?thesis
    by (simp add: list_eq_iff_nth_eq)
qed

lemma perform_no_workers:
  "numWorkers workerCount = 0 \<Longrightarrow> running s = [] \<Longrightarrow> exited s = 0 \<Longrightarrow>
   perform run workerCount tasks a s = Some s' \<Longrightarrow>
   running s' = [] \<and> exited s' = 0 \<and> slots s' = slots s"
  by (cases a) (auto split: if_splits list.splits)

lemma execute_no_workers:
  "numWorkers workerCount = 0 \<Longrightarrow> running s = [] \<Longrightarrow> exited s = 0 \<Longrightarrow>
   execute run workerCount tasks sched s = Some s' \<Longrightarrow> slots s' = slots s"
proof (induction sched arbitrary: s)
  case Nil
  then show ?case by simp
next
  case (Cons a sched)
  then obtain s1 where p: "perform run workerCount tasks a s = Some s1"
      and e: "execute run workerCount tasks sched s1 = Some s'"
    by (auto split: option.splits)
  have "running s1 = [] \<and> exited s1 = 0 \<and> slots s1 = slots s"
    using perform_no_workers [OF Cons.prems(1,2,3) p] .
  then show ?case
    using Cons.IH [OF Cons.prems(1) _ _ e] by simp
qed

lemma execute_append:
  "execute run workerCount tasks (as @ bs) s =
     (case execute run workerCount tasks as s of
        None \<Rightarrow> None
      | Some s' \<Rightarrow> execute run workerCount tasks bs s')"
  by (induction as arbitrary: s) (auto split: option.splits)

lemma execute_feeds:
  "\<not> closed s \<Longrightarrow> fed s + k \<le> length tasks \<Longrightarrow>
   execute run workerCount tasks (replicate k Feed) s =
     Some (s\<lparr>chan := chan s @ [fed s ..< fed s + k], fed := fed s + k\<rparr>)"
proof (induction k arbitrary: s)
  case 0
  then show ?case by simp
next
  case (Suc k)
  let ?s = "s\<lparr>chan := chan s @ [fed s], fed := fed s + 1\<rparr>"
  have ih: "execute run workerCount tasks (replicate k Feed) ?s =
     Some (?s\<lparr>chan := chan ?s @ [fed ?s ..< fed ?s + k], fed := fed ?s + k\<rparr>)"
    by (rule Suc.IH) (use Suc.prems in auto)
  have h: "[fed s ..< fed s + Suc k] = fed s # [fed ?s ..< fed ?s + k]"
    by (simp add: upt_conv_Cons del: upt_Suc)
  have step: "perform run workerCount tasks Feed s = Some ?s"
    using Suc.prems by simp
  show ?case
    unfolding replicate_Suc execute.simps step option.case ih h by simp
qed

lemma execute_work:
  "0 < numWorkers workerCount \<Longrightarrow> running s = [] \<Longrightarrow> exited s = 0 \<Longrightarrow> chan s = c \<Longrightarrow>
   length (slots s) = length tasks \<Longrightarrow> \<forall>i \<in> set c. i < length tasks \<Longrightarrow>
   \<exists>s'. execute run workerCount tasks (concat (map (\<lambda>i. [Take, Finish i]) c)) s = Some s'
        \<and> chan s' = [] \<and> running s' = [] \<and> exited s' = 0 \<and> closed s' = closed s"
proof (induction c arbitrary: s)
  case Nil
  then show ?case by simp
next
  case (Cons i c)
  let ?s1 = "s\<lparr>chan := c, running := [i]\<rparr>"
  let ?s2 = "s\<lparr>chan := c, running := [], slots := (slots s)[i := run (tasks ! i)]\<rparr>"
  have p1: "perform run workerCount tasks Take s = Some ?s1"
    using Cons.prems by simp
  have p2: "perform run workerCount tasks (Finish i) ?s1 = Some ?s2"
    using Cons.prems by simp
  have sch: "concat (map (\<lambda>i. [Take, Finish i]) (i # c))
      = Take # Finish i # concat (map (\<lambda>i. [Take, Finish i]) c)"
    by simp
  have two: "execute run workerCount tasks (concat (map (\<lambda>i. [Take, Finish i]) (i # c))) s
      = execute run workerCount tasks (concat (map (\<lambda>i. [Take, Finish i]) c)) ?s2"
    by (simp only: sch execute.simps p1 p2 option.case)
  obtain s' where ih: "execute run workerCount tasks (concat (map (\<lambda>i. [Take, Finish i]) c)) ?s2 = Some s'"
      "chan s' = []" "running s' = []" "exited s' = 0" "closed s' = closed ?s2"
    using Cons.IH [of ?s2] Cons.prems by auto
  have "closed s' = closed s"
    using ih(5) by simp
  then show ?case
    unfolding two using ih(1-4) by blast
qed

lemma execute_exits:
  "closed s \<Longrightarrow> chan s = [] \<Longrightarrow> running s = [] \<Longrightarrow> exited s + k \<le> numWorkers workerCount \<Longrightarrow>
   execute run workerCount tasks (replicate k Exit) s = Some (s\<lparr>exited := exited s + k\<rparr>)"
proof (induction k arbitrary: s)
  case 0
  then show ?case by simp
next
  case (Suc k)
  let ?s = "s\<lparr>exited := exited s + 1\<rparr>"
  have "execute run workerCount tasks (replicate k Exit) ?s = Some (?s\<lparr>exited := exited ?s + k\<rparr>)"
    by (rule Suc.IH) (use Suc.prems in auto)
  then show ?case
    using Suc.prems by simp
qed

lemma sequentialSchedule_complete:
  assumes "0 < workerCount"
  shows "\<exists>s. execute run workerCount tasks
               (sequentialSchedule (length tasks) (numWorkers workerCount)) (initSched tasks) = Some s
             \<and> waitReturns workerCount s"
proof -
  let ?n = "length tasks"
  let ?w = "numWorkers workerCount"
  have w: "0 < ?w"
    using assms by (simp add: numWorkers_def)
  let ?s1 = "(initSched tasks)\<lparr>chan := [0 ..< ?n], fed := ?n\<rparr>"
  have f: "execute run workerCount tasks (replicate ?n Feed) (initSched tasks) = Some ?s1"
    using execute_feeds [of "initSched tasks" ?n tasks run workerCount]
    by (simp add: initSched_def)
  let ?s2 = "?s1\<lparr>closed := True\<rparr>"
  have c: "execute run workerCount tasks [Close] ?s1 = Some ?s2"
    by (simp add: initSched_def)
  obtain s3 where s3: "execute run workerCount tasks
        (concat (map (\<lambda>i. [Take, Finish i]) [0 ..< ?n])) ?s2 = Some s3"
      "chan s3 = []" "running s3 = []" "exited s3 = 0" "closed s3"
    using execute_work [of workerCount ?s2 "[0 ..< ?n]" tasks run] w
    by (auto simp: initSched_def)
  have e: "execute run workerCount tasks (replicate ?w Exit) s3 = Some (s3\<lparr>exited := ?w\<rparr>)"
    using execute_exits [of s3 ?w workerCount run tasks] s3 by simp
  have "execute run workerCount tasks (sequentialSchedule ?n ?w) (initSched tasks)
          = Some (s3\<lparr>exited := ?w\<rparr>)"
    unfolding sequentialSchedule_def
    by (simp only: execute_append f c s3(1) e option.case)
  moreover have "waitReturns workerCount (s3\<lparr>exited := ?w\<rparr>)"
    using s3 by (simp add: waitReturns_def)
  ultimately show ?thesis by blast
qed

lemma runWithoutUI_Some:
  "runWithoutUI env plat tasks workerCount schedule = Some res \<longleftrightarrow>
     (\<exists>s. execute (\<lambda>t. fst (Run env (NewRunner plat) t)) workerCount tasks schedule (initSched tasks)
            = Some s
          \<and> waitReturns workerCount s \<and> slots s = res)"
  by (auto simp: runWithoutUI_def Let_def split: option.splits)

lemma perform_measure:
  "perform run workerCount tasks a s = Some s' \<Longrightarrow>
   schedMeasure workerCount tasks s' < schedMeasure workerCount tasks s"
proof (cases a)
  case (Finish idx)
  assume p: "perform run workerCount tasks a s = Some s'"
  then have en: "idx \<in> set (running s)" and r: "running s' = remove1 idx (running s)"
    and o: "fed s' = fed s" "chan s' = chan s" "closed s' = closed s" "exited s' = exited s"
    using Finish by (auto split: if_splits)
  have "length (remove1 idx (running s)) < length (running s)"
    using en by (simp add: length_remove1) (cases "running s", auto)
  then show ?thesis
    by (simp add: schedMeasure_def r o)
qed (auto simp: schedMeasure_def split: if_splits list.splits)

lemma perform_progress:
  assumes "schedInv run workerCount tasks s" and "\<not> waitReturns workerCount s"
  shows "\<exists>a s'. perform run workerCount tasks a s = Some s'"
proof (cases "closed s")
  case False
  show ?thesis
  proof (cases "fed s < length tasks")
    case True
    then have "perform run workerCount tasks Feed s \<noteq> None"
      using False by simp
    then show ?thesis by blast
  next
    case f: False
    then have "fed s = length tasks"
      using assms(1) by (simp add: schedInv_def)
    then have "perform run workerCount tasks Close s \<noteq> None"
      using False by simp
    then show ?thesis by blast
  qed
next
  case True
  then have lt: "length (running s) + exited s \<le> numWorkers workerCount"
      and ne: "exited s \<noteq> numWorkers workerCount"
    using assms by (simp_all add: schedInv_def waitReturns_def)
  show ?thesis
  proof (cases "running s")
    case (Cons idx rest)
    then have "idx < fed s" "fed s \<le> length tasks" "length (slots s) = length tasks"
      using assms(1) by (simp_all add: schedInv_def)
    then have "perform run workerCount tasks (Finish idx) s \<noteq> None"
      using Cons by simp
    then show ?thesis by blast
  next
    case Nil
    then have free: "length (running s) + exited s < numWorkers workerCount"
      using lt ne by simp
    show ?thesis
    proof (cases "chan s")
      case Nil
      then have "perform run workerCount tasks Exit s \<noteq> None"
        using True free by simp
      then show ?thesis by blast
    next
      case (Cons i c)
      then have "perform run workerCount tasks Take s \<noteq> None"
        using free by simp
      then show ?thesis by blast
    qed
  qed
qed

lemma execute_feed_close_no_workers:
  "execute run workerCount tasks (replicate (length tasks) Feed @ [Close]) (initSched tasks)
     = Some ((initSched tasks)\<lparr>chan := [0 ..< length tasks], fed := length tasks, closed := True\<rparr>)"
proof -
  have f: "execute run workerCount tasks (replicate (length tasks) Feed) (initSched tasks)
      = Some ((initSched tasks)\<lparr>chan := [0 ..< length tasks], fed := length tasks\<rparr>)"
    using execute_feeds [of "initSched tasks" "length tasks" tasks run workerCount]
    by (simp add: initSched_def)
  have c: "execute run workerCount tasks [Close]
        ((initSched tasks)\<lparr>chan := [0 ..< length tasks], fed := length tasks\<rparr>)
      = Some ((initSched tasks)\<lparr>chan := [0 ..< length tasks], fed := length tasks, closed := True\<rparr>)"
    by (simp add: initSched_def)
  show ?thesis
    by (simp only: execute_append f c option.case)
qed

lemma runWithoutUI_no_workers:
  assumes "workerCount \<le> 0"
  shows "(\<exists>schedule. runWithoutUI env plat tasks workerCount schedule = Some res)
           = (res = replicate (length tasks) zeroResult)"
proof -
  let ?run = "\<lambda>t. fst (Run env (NewRunner plat) t)"
  have w: "numWorkers workerCount = 0"
    using assms by (simp add: numWorkers_def)
  have sound: "res = replicate (length tasks) zeroResult"
    if a: "runWithoutUI env plat tasks workerCount schedule = Some res" for schedule
  proof -
    obtain s where s: "execute ?run workerCount tasks schedule (initSched tasks) = Some s"
        "slots s = res"
      using a unfolding runWithoutUI_Some by blast
    have "slots s = slots (initSched tasks)"
      by (rule execute_no_workers [OF w _ _ s(1)]) (simp_all add: initSched_def)
    then show ?thesis
      using s(2) by (simp add: initSched_def)
  qed
  have "runWithoutUI env plat tasks workerCount (replicate (length tasks) Feed @ [Close])
      = Some (replicate (length tasks) zeroResult)"
    unfolding runWithoutUI_Some
    using execute_feed_close_no_workers [of ?run workerCount tasks] w
    by (simp add: waitReturns_def initSched_def)
  then show ?thesis
    using sound by blast
qed

lemma Run_exampleTask:
  "Run exampleEnv (NewRunner examplePlatform) exampleTask =
     (\<lparr>Name_r = ''Kernel'', Command_r = ''uname -a'', Category_r = ''system'',
       Status = StatusFailed, Output = ''partial out'', Error = ''Command timed out after 30s'',
       Duration = 30000000000, SkipReason = []\<rparr>, [Spawned ''uname -a''])"
  by (simp add: Run_def CanRun_def exampleTask_def examplePlatform_def NewRunner_def
      initialResult_def exampleEnv_def determineStatus_def DefaultTimeout_def MatchesTags_def
      truncateOutput_partial_out truncateOutput_partial_err)

text \<open>
  The scheduler with at least one worker. \<^verbatim>\<open>runWithoutUI\<close> returns, and whatever the order
  in which the workers receive the indices and write their results, the array it returns is
  the list of the results of \<^verbatim>\<open>Run\<close> on the tasks, in the order of the tasks: as many
  results as tasks, the result of task \<open>i\<close> at position \<open>i\<close>. The list of tasks may be
  empty. (Lemmas \<open>perform_progress\<close> and \<open>perform_measure\<close>: no reachable state is stuck
  before \<^verbatim>\<open>wg.Wait\<close> returns, and no execution goes on for ever.)
\<close>

theorem runWithoutUI_results_in_input_order:
  "0 < workerCount \<Longrightarrow>
     (\<exists>schedule. runWithoutUI env plat tasks workerCount schedule = Some res)
       = (res = map (\<lambda>t. fst (Run env (NewRunner plat) t)) tasks)"
proof -
  assume w: "0 < workerCount"
  let ?run = "\<lambda>t. fst (Run env (NewRunner plat) t)"
  have sound: "res = map ?run tasks"
    if a: "runWithoutUI env plat tasks workerCount schedule = Some res" for schedule
  proof -
    obtain s where s: "execute ?run workerCount tasks schedule (initSched tasks) = Some s"
        "waitReturns workerCount s" "slots s = res"
      using a unfolding runWithoutUI_Some by blast
    have "schedInv ?run workerCount tasks s"
      using execute_inv [OF initSched_inv s(1)] .
    then show ?thesis
      using returned_slots [OF _ s(2) w] s(3) by simp
  qed
  have complete: "\<exists>schedule. runWithoutUI env plat tasks workerCount schedule = Some (map ?run tasks)"
  proof -
    obtain s where s: "execute ?run workerCount tasks
          (sequentialSchedule (length tasks) (numWorkers workerCount)) (initSched tasks) = Some s"
        "waitReturns workerCount s"
      using sequentialSchedule_complete [OF w, of ?run tasks] by blast
    have "schedInv ?run workerCount tasks s"
      using execute_inv [OF initSched_inv s(1)] .
    then have "slots s = map ?run tasks"
      using returned_slots [OF _ s(2) w] by simp
    then have "runWithoutUI env plat tasks workerCount
          (sequentialSchedule (length tasks) (numWorkers workerCount)) = Some (map ?run tasks)"
      using s by (simp add: runWithoutUI_Some)
    then show ?thesis by blast
  qed
  show ?thesis
    using sound complete by blast
qed

theorem runWithoutUI_results_in_input_order_witness:
  "(0::int) < 2
   \<and> (\<exists>schedule. runWithoutUI exampleEnv examplePlatform [exampleTask, sudoTask] 2 schedule
         = Some (map (\<lambda>t. fst (Run exampleEnv (NewRunner examplePlatform) t)) [exampleTask, sudoTask]))
   \<and> runWithoutUI exampleEnv examplePlatform [exampleTask, sudoTask] 2
        [Feed, Take, Feed, Take, Finish 1, Close, Finish 0, Exit, Exit]
        = Some (map (\<lambda>t. fst (Run exampleEnv (NewRunner examplePlatform) t)) [exampleTask, sudoTask])"
proof -
  have h: "(0::int) < 2" by simp
  have e: "(\<exists>schedule. runWithoutUI exampleEnv examplePlatform [exampleTask, sudoTask] 2 schedule
         = Some (map (\<lambda>t. fst (Run exampleEnv (NewRunner examplePlatform) t)) [exampleTask, sudoTask]))"
    using runWithoutUI_results_in_input_order [OF h, of exampleEnv examplePlatform
        "[exampleTask, sudoTask]"
        "map (\<lambda>t. fst (Run exampleEnv (NewRunner examplePlatform) t)) [exampleTask, sudoTask]"]
    by simp
  have r: "runWithoutUI exampleEnv examplePlatform [exampleTask, sudoTask] 2
        [Feed, Take, Feed, Take, Finish 1, Close, Finish 0, Exit, Exit]
        = Some (map (\<lambda>t. fst (Run exampleEnv (NewRunner examplePlatform) t)) [exampleTask, sudoTask])"
    by (simp add: runWithoutUI_def initSched_def waitReturns_def numWorkers_def Let_def)
  show ?thesis
    using h e r by blast
qed

text \<open>
  Claim C3, at a worker count of zero, which the \<^verbatim>\<open>-workers\<close> flag accepts unchecked. The
  claim asks for the result of running task \<open>i\<close> at position \<open>i\<close> for every list of tasks.
  With no worker started, \<^verbatim>\<open>wg.Wait\<close> returns at once: no task is run and the array still
  holds the zero value of \<^verbatim>\<open>TaskResult\<close>, with status \<open>Pending\<close>, at every position
  (lemma \<open>runWithoutUI_no_workers\<close>), where \<^verbatim>\<open>Run\<close> on the task gives another result.
\<close>

theorem runWithoutUI_no_workers_defect:
  "runWithoutUI exampleEnv examplePlatform [exampleTask] 0 [Feed, Close] = Some [zeroResult]
   \<and> map (\<lambda>t. fst (Run exampleEnv (NewRunner examplePlatform) t)) [exampleTask] \<noteq> [zeroResult]"
  by (simp add: runWithoutUI_def initSched_def waitReturns_def numWorkers_def Run_exampleTask
      zeroResult_def)

end
